theory Spec2Isabelle
  imports Complex_Main "HOL-Library.Sublist"
begin

section \<open>Python strings\<close>

text \<open>
  Strings are character lists. \<open>lower\<close> is \<open>str.lower\<close> on ASCII letters,
  \<open>py_in sub s\<close> is the substring test \<open>sub in s\<close>, \<open>str_nat\<close> and \<open>str_int\<close> are
  \<open>str\<close> of a non-negative and of an arbitrary integer.
\<close>

definition lower_char :: "char \<Rightarrow> char" where
  "lower_char c =
     (case map_of (zip ''ABCDEFGHIJKLMNOPQRSTUVWXYZ'' ''abcdefghijklmnopqrstuvwxyz'') c of
        Some l \<Rightarrow> l
      | None \<Rightarrow> c)"

definition lower :: "string \<Rightarrow> string" where
  "lower s = map lower_char s"

fun py_in :: "string \<Rightarrow> string \<Rightarrow> bool" where
  "py_in sub [] = (sub = [])"
| "py_in sub (c # cs) = (prefix sub (c # cs) \<or> py_in sub cs)"

fun str_nat :: "nat \<Rightarrow> string" where
  "str_nat n =
     (if n < 10 then [''0123456789'' ! n]
      else str_nat (n div 10) @ [''0123456789'' ! (n mod 10)])"

declare str_nat.simps [simp del]

definition str_int :: "int \<Rightarrow> string" where
  "str_int i = (if i < 0 then CHR ''-'' # str_nat (nat (- i)) else str_nat (nat i))"

section \<open>JSON values and dictionaries\<close>

text \<open>
  A dictionary is an association list with distinct keys in insertion order, as Python
  dictionaries keep it. \<open>dict_set d k v\<close> is \<open>d[k] = v\<close>: an existing key keeps its
  place. Numbers are the integers; floating-point numbers are not modelled.
\<close>

datatype json =
    JNull
  | JBool bool
  | JInt int
  | JStr string
  | JArr "json list"
  | JObj "(string \<times> json) list"

type_synonym jdict = "(string \<times> json) list"

fun dict_set :: "(string \<times> 'v) list \<Rightarrow> string \<Rightarrow> 'v \<Rightarrow> (string \<times> 'v) list" where
  "dict_set [] k v = [(k, v)]"
| "dict_set ((k', v') # d) k v = (if k' = k then (k, v) # d else (k', v') # dict_set d k v)"

text \<open>\<open>str\<close> of the scalar values the generator writes into descriptions.\<close>

fun py_str :: "json \<Rightarrow> string" where
  "py_str (JBool True) = ''True''"
| "py_str (JBool False) = ''False''"
| "py_str (JInt i) = str_int i"
| "py_str (JStr s) = s"
| "py_str JNull = ''None''"
| "py_str (JArr xs) = ''[...]''"
| "py_str (JObj d) = ''{...}''"

section \<open>Settings\<close>

definition SUSPICIOUS_FIELDS :: "string list" where
  "SUSPICIOUS_FIELDS =
     [''isAdmin'', ''is_admin'', ''admin'', ''role'', ''roles'', ''isOwner'', ''is_owner'',
      ''owner'', ''permissions'', ''permission'', ''accessLevel'', ''access_level'',
      ''privileges'', ''privilege'', ''superuser'', ''super_user'', ''isSuperuser'',
      ''is_superuser'']"

definition SENSITIVE_FIELDS :: "string list" where
  "SENSITIVE_FIELDS =
     [''ownerId'', ''owner_id'', ''userId'', ''user_id'', ''email'', ''role'', ''roles'',
      ''isAdmin'', ''is_admin'', ''permissions'', ''accessLevel'', ''access_level'']"

definition HTTP_METHODS :: "string list" where
  "HTTP_METHODS = [''GET'', ''POST'', ''PUT'', ''DELETE'', ''OPTIONS'', ''HEAD'', ''PATCH'']"

definition DESTRUCTIVE_METHODS :: "string list" where
  "DESTRUCTIVE_METHODS = [''DELETE'']"

definition MAX_BODY_SIZE :: nat where
  "MAX_BODY_SIZE = 20 * 1024"

definition IDOR_TEST_COUNT :: nat where
  "IDOR_TEST_COUNT = 10"

definition AUTH_BYPASS_TEST_COUNT :: nat where
  "AUTH_BYPASS_TEST_COUNT = 5"

definition METHOD_CONFUSION_TEST_COUNT :: nat where
  "METHOD_CONFUSION_TEST_COUNT = 10"

definition MASS_ASSIGNMENT_TEST_COUNT :: nat where
  "MASS_ASSIGNMENT_TEST_COUNT = 5"

definition DEFAULT_MAX_TESTS_PER_ENDPOINT :: nat where
  "DEFAULT_MAX_TESTS_PER_ENDPOINT = 30"

definition STATUS_CHANGE_HIGH :: "(int \<times> int list) list" where
  "STATUS_CHANGE_HIGH = [(403, [200, 201, 204]), (401, [200, 201, 204]), (404, [200, 201, 204])]"

definition STATUS_CHANGE_MEDIUM :: "(int \<times> int list) list" where
  "STATUS_CHANGE_MEDIUM = [(404, [200, 201, 204]), (400, [200, 201, 204])]"

section \<open>Exceptions\<close>

text \<open>The exceptions that the modelled functions let escape to their callers.\<close>

datatype error = AttributeError | ZeroDivisionError | ValueError | TypeError

text \<open>The characters below the blank.\<close>

definition control_chars :: string where
  "control_chars =
     [CHR 0x00, CHR 0x01, CHR 0x02, CHR 0x03, CHR 0x04, CHR 0x05, CHR 0x06, CHR 0x07,
      CHR 0x08, CHR 0x09, CHR 0x0A, CHR 0x0B, CHR 0x0C, CHR 0x0D, CHR 0x0E, CHR 0x0F,
      CHR 0x10, CHR 0x11, CHR 0x12, CHR 0x13, CHR 0x14, CHR 0x15, CHR 0x16, CHR 0x17,
      CHR 0x18, CHR 0x19, CHR 0x1A, CHR 0x1B, CHR 0x1C, CHR 0x1D, CHR 0x1E, CHR 0x1F]"

section \<open>Library functions the endpoint modeler calls\<close>

text \<open>
  \<open>str.split(sep)\<close> for a one-character separator and \<open>sep.join\<close>.
\<close>

fun split :: "char \<Rightarrow> string \<Rightarrow> string list" where
  "split sep [] = [[]]"
| "split sep (c # cs) =
     (if c = sep then [] # split sep cs
      else (case split sep cs of
              [] \<Rightarrow> [[c]]
            | w # ws \<Rightarrow> (c # w) # ws))"

fun join :: "string \<Rightarrow> string list \<Rightarrow> string" where
  "join sep [] = []"
| "join sep [w] = w"
| "join sep (w # ws) = w @ sep @ join sep ws"

text \<open>\<open>s.partition(sep)\<close> without the separator: the text before and after its first occurrence.\<close>

definition cut :: "char \<Rightarrow> string \<Rightarrow> string \<times> string" where
  "cut sep s = (takeWhile (\<lambda>c. c \<noteq> sep) s, drop 1 (dropWhile (\<lambda>c. c \<noteq> sep) s))"

definition is_digit :: "char \<Rightarrow> bool" where
  "is_digit c = (c \<in> set ''0123456789'')"

definition is_alpha :: "char \<Rightarrow> bool" where
  "is_alpha c = (c \<in> set ''abcdefghijklmnopqrstuvwxyzABCDEFGHIJKLMNOPQRSTUVWXYZ'')"

definition is_hex :: "char \<Rightarrow> bool" where
  "is_hex c = (c \<in> set ''0123456789abcdefABCDEF'')"

text \<open>\<open>str.isdigit\<close>, on ASCII: a non-empty string of decimal digits.\<close>

definition isdigit :: "string \<Rightarrow> bool" where
  "isdigit s = (s \<noteq> [] \<and> list_all is_digit s)"

text \<open>
  \<open>re.match\<close> of the UUID pattern with \<open>re.IGNORECASE\<close>: five groups of 8, 4, 4, 4
  and 12 hexadecimal digits joined by hyphens; \<open>$\<close> also matches before one final
  newline.
\<close>

definition uuid_form :: "string \<Rightarrow> bool" where
  "uuid_form s =
     (map length (split CHR ''-'' s) = [8, 4, 4, 4, 12]
      \<and> list_all (list_all is_hex) (split CHR ''-'' s))"

definition matches_uuid :: "string \<Rightarrow> bool" where
  "matches_uuid s =
     (uuid_form s \<or> (s \<noteq> [] \<and> last s = CHR 0x0A \<and> uuid_form (butlast s)))"

text \<open>
  \<open>urllib.parse.urlparse\<close>, reduced to the two components \<open>normalize_url\<close> returns.
  Leading blanks and control characters are dropped, then every tab and newline. The
  scheme (letters, digits, \<open>+\<close>, \<open>-\<close>, \<open>.\<close> after a first letter, before a colon) and
  the authority after \<open>//\<close> are split off; an authority with one square bracket and not
  the other raises \<open>ValueError\<close>. The fragment after \<open>#\<close> and the query after \<open>?\<close>
  are split off. For the schemes of \<open>uses_params\<close>, the parameters after \<open>;\<close> in the
  last path segment are dropped. The further checks of the authority (the address
  between the brackets, characters that normalise to a delimiter) are not modelled.
\<close>

definition clean_url :: "string \<Rightarrow> string" where
  "clean_url u =
     filter (\<lambda>c. c \<notin> set [CHR 0x09, CHR 0x0D, CHR 0x0A])
       (dropWhile (\<lambda>c. c \<in> set (CHR '' '' # control_chars)) u)"

definition split_scheme :: "string \<Rightarrow> string \<times> string" where
  "split_scheme u =
     (let s = takeWhile (\<lambda>c. c \<noteq> CHR '':'') u
      in if s \<noteq> [] \<and> length s < length u \<and> is_alpha (hd u)
            \<and> list_all (\<lambda>c. is_alpha c \<or> is_digit c \<or> c \<in> set ''+-.'') s
         then (lower s, drop (length s + 1) u) else ([], u))"

definition split_netloc :: "string \<Rightarrow> string \<times> string" where
  "split_netloc u =
     (if take 2 u = ''//''
      then (takeWhile (\<lambda>c. c \<notin> set ''/?#'') (drop 2 u),
            dropWhile (\<lambda>c. c \<notin> set ''/?#'') (drop 2 u))
      else ([], u))"

definition uses_params :: "string list" where
  "uses_params =
     ['''', ''ftp'', ''hdl'', ''prospero'', ''http'', ''imap'', ''https'', ''shttp'', ''rtsp'',
      ''rtspu'', ''sip'', ''sips'', ''mms'', ''sftp'', ''tel'']"

definition strip_params :: "string \<Rightarrow> string" where
  "strip_params p =
     (if CHR '';'' \<notin> set p then p
      else
        let segs = split CHR ''/'' p
        in if CHR '';'' \<in> set (last segs)
           then join ''/'' (butlast segs @ [fst (cut CHR '';'' (last segs))])
           else p)"

definition normalize_url :: "string \<Rightarrow> error + string \<times> string" where
  "normalize_url u =
     (let (scheme, after_scheme) = split_scheme (clean_url u);
          (netloc, after_netloc) = split_netloc after_scheme
      in if (CHR ''['' \<in> set netloc \<and> CHR '']'' \<notin> set netloc)
            \<or> (CHR '']'' \<in> set netloc \<and> CHR ''['' \<notin> set netloc)
         then Inl ValueError
         else
           let (p, query) = cut CHR ''?'' (fst (cut CHR ''#'' after_netloc))
           in Inr (if scheme \<in> set uses_params then strip_params p else p, query))"

text \<open>
  \<open>urllib.parse.parse_qs\<close> with its defaults: fields separated by \<open>&\<close>, a field without
  \<open>=\<close> or with an empty value is skipped, \<open>+\<close> stands for a blank, \<open>%\<close> with two
  hexadecimal digits stands for the byte of that value, the values of a name are
  collected in order. Strings are byte strings here; the replacement of bytes that are
  not UTF-8 is not modelled. The modeler takes the function as a parameter, and what is
  proved of it holds for every such function; this one serves in evaluations.
\<close>

definition plus_to_blank :: "string \<Rightarrow> string" where
  "plus_to_blank s = map (\<lambda>c. if c = CHR ''+'' then CHR '' '' else c) s"

definition hex_val :: "char \<Rightarrow> nat option" where
  "hex_val c =
     map_of (zip ''0123456789abcdefABCDEF''
              [0, 1, 2, 3, 4, 5, 6, 7, 8, 9, 10, 11, 12, 13, 14, 15, 10, 11, 12, 13, 14, 15]) c"

fun unquote :: "string \<Rightarrow> string" where
  "unquote (c # h # l # s) =
     (if c = CHR ''%'' then
        (case (hex_val h, hex_val l) of
           (Some a, Some b) \<Rightarrow> char_of (16 * a + b) # unquote s
         | _ \<Rightarrow> c # unquote (h # l # s))
      else c # unquote (h # l # s))"
| "unquote s = s"

text \<open>\<open>d[k].extend(vs)\<close>, the entry created when it is missing.\<close>

fun dict_extend :: "('k \<times> 'v list) list \<Rightarrow> 'k \<Rightarrow> 'v list \<Rightarrow> ('k \<times> 'v list) list" where
  "dict_extend [] k vs = [(k, vs)]"
| "dict_extend ((k', vs') # d) k vs =
     (if k' = k then (k', vs' @ vs) # d else (k', vs') # dict_extend d k vs)"

definition parse_qs :: "string \<Rightarrow> (string \<times> string list) list" where
  "parse_qs qs =
     foldl (\<lambda>d name_value.
              if CHR ''='' \<notin> set name_value then d
              else
                let (name, v) = cut CHR ''='' name_value
                in if v = [] then d
                   else dict_extend d (unquote (plus_to_blank name)) [unquote (plus_to_blank v)])
       [] (split CHR ''&'' qs)"

text \<open>
  \<open>json.loads\<close> on the part of JSON the model has values for: objects, arrays, strings
  without escape sequences, integers, \<open>true\<close>, \<open>false\<close> and \<open>null\<close>. A repeated key of
  an object keeps its first place and its last value. Texts with an escape sequence, and
  the numbers Python reads as floating-point numbers (with a fraction or an exponent,
  \<open>NaN\<close>, \<open>Infinity\<close>), are outside this part, and the parser gives \<open>None\<close> for them.
  The modeler takes the parser as a parameter, and what is proved of it holds for every
  parser; this one serves in evaluations. The recursion runs on fuel, one unit for each
  value or member, and \<open>json_loads\<close> supplies more than the text has characters.
\<close>

definition is_ws :: "char \<Rightarrow> bool" where
  "is_ws c = (c \<in> set [CHR '' '', CHR 0x0A, CHR 0x0D, CHR 0x09])"

definition skip_ws :: "string \<Rightarrow> string" where
  "skip_ws s = dropWhile is_ws s"

definition digit_val :: "char \<Rightarrow> nat" where
  "digit_val c =
     (case map_of (zip ''0123456789'' [0, 1, 2, 3, 4, 5, 6, 7, 8, 9]) c of
        Some n \<Rightarrow> n
      | None \<Rightarrow> 0)"

definition nat_of_digits :: "string \<Rightarrow> nat" where
  "nat_of_digits ds = foldl (\<lambda>a c. 10 * a + digit_val c) 0 ds"

definition parse_number :: "string \<Rightarrow> (json \<times> string) option" where
  "parse_number s =
     (let neg = (take 1 s = ''-'');
          s1 = (if neg then drop 1 s else s);
          ds = takeWhile is_digit s1;
          rest = dropWhile is_digit s1
      in if ds = [] then None
         else if length ds > 1 \<and> hd ds = CHR ''0'' then None
         else if take 1 rest \<in> set [''.'', ''e'', ''E''] then None
         else Some (JInt (if neg then - int (nat_of_digits ds) else int (nat_of_digits ds)), rest))"

definition parse_string :: "string \<Rightarrow> (string \<times> string) option" where
  "parse_string s =
     (let plain = (\<lambda>c. c \<noteq> CHR 0x22 \<and> c \<noteq> CHR 0x5C \<and> c \<notin> set control_chars);
          b = takeWhile plain s;
          rest = dropWhile plain s
      in if take 1 rest = [CHR 0x22] then Some (b, drop 1 rest) else None)"

fun parse_value :: "nat \<Rightarrow> string \<Rightarrow> (json \<times> string) option"
  and parse_elems :: "nat \<Rightarrow> json list \<Rightarrow> string \<Rightarrow> (json \<times> string) option"
  and parse_members :: "nat \<Rightarrow> jdict \<Rightarrow> string \<Rightarrow> (json \<times> string) option" where
  "parse_value 0 s = None"
| "parse_value (Suc n) s =
     (let t = skip_ws s
      in if take 1 t = ''{'' then
           (if take 1 (skip_ws (drop 1 t)) = ''}'' then Some (JObj [], drop 1 (skip_ws (drop 1 t)))
            else parse_members n [] (drop 1 t))
         else if take 1 t = ''['' then
           (if take 1 (skip_ws (drop 1 t)) = '']'' then Some (JArr [], drop 1 (skip_ws (drop 1 t)))
            else parse_elems n [] (drop 1 t))
         else if take 1 t = [CHR 0x22] then
           (case parse_string (drop 1 t) of
              None \<Rightarrow> None
            | Some (b, rest) \<Rightarrow> Some (JStr b, rest))
         else if prefix ''true'' t then Some (JBool True, drop 4 t)
         else if prefix ''false'' t then Some (JBool False, drop 5 t)
         else if prefix ''null'' t then Some (JNull, drop 4 t)
         else parse_number t)"
| "parse_elems 0 acc s = None"
| "parse_elems (Suc n) acc s =
     (case parse_value n s of
        None \<Rightarrow> None
      | Some (v, rest) \<Rightarrow>
          (let t = skip_ws rest
           in if take 1 t = '','' then parse_elems n (acc @ [v]) (drop 1 t)
              else if take 1 t = '']'' then Some (JArr (acc @ [v]), drop 1 t)
              else None))"
| "parse_members 0 acc s = None"
| "parse_members (Suc n) acc s =
     (let t = skip_ws s
      in if take 1 t \<noteq> [CHR 0x22] then None
         else
           (case parse_string (drop 1 t) of
              None \<Rightarrow> None
            | Some (key, rest) \<Rightarrow>
                (let t1 = skip_ws rest
                 in if take 1 t1 \<noteq> '':'' then None
                    else
                      (case parse_value n (drop 1 t1) of
                         None \<Rightarrow> None
                       | Some (v, rest') \<Rightarrow>
                           (let t2 = skip_ws rest'
                            in if take 1 t2 = '','' then parse_members n (dict_set acc key v) (drop 1 t2)
                               else if take 1 t2 = ''}'' then Some (JObj (dict_set acc key v), drop 1 t2)
                               else None)))))"

definition json_loads :: "string \<Rightarrow> json option" where
  "json_loads s =
     (case parse_value (Suc (length s)) s of
        None \<Rightarrow> None
      | Some (v, rest) \<Rightarrow> if skip_ws rest = [] then Some v else None)"

section \<open>Test generator: data\<close>

text \<open>
  \<open>TestCase\<close> of \<open>test_generator.py\<close>. The \<open>cookies\<close> field is the flag the replay
  engine reads as "send the session".
\<close>

record test_case =
  test_id :: string
  test_type :: string
  endpoint :: string
  tc_method :: string
  url :: string
  headers :: "(string \<times> string) list"
  body :: "jdict option"
  cookies :: bool
  description :: string

text \<open>
  An identifier of a pool: \<open>integer_ids\<close> holds integers, the other two buckets hold
  strings.
\<close>

datatype idval = IdInt int | IdStr string

record id_pool =
  integer_ids :: "int list"
  uuid_ids :: "string list"
  string_ids :: "string list"

text \<open>An entry of \<open>endpoints.json\<close>, as the generator reads it.\<close>

record endpoint_dict =
  ep_method :: string
  templated_path :: string
  sample_bodies :: "jdict list"
  id_pools :: "(string \<times> id_pool) list"

section \<open>Test generator: MASS\_ASSIGNMENT\<close>

text \<open>
  The \<open>if\<close>/\<open>elif\<close> chain of \<open>generate_mass_assignment_tests\<close> that picks the value
  \<open>test_body[field]\<close> receives.
\<close>

definition inject_value :: "string \<Rightarrow> json" where
  "inject_value field =
     (if py_in ''admin'' (lower field) \<or> py_in ''is'' (lower field) then JBool True
      else if py_in ''role'' (lower field) then JStr ''admin''
      else if py_in ''permission'' (lower field) \<or> py_in ''access'' (lower field) then JStr ''full''
      else JBool True)"

definition mass_assignment_test :: "endpoint_dict \<Rightarrow> jdict \<Rightarrow> nat \<times> string \<Rightarrow> test_case" where
  "mass_assignment_test ep base_body p =
     (case p of (i, field) \<Rightarrow>
        \<lparr>test_id = ''mass_assignment_'' @ templated_path ep @ ''_'' @ str_nat i,
         test_type = ''MASS_ASSIGNMENT'',
         endpoint = templated_path ep,
         tc_method = ep_method ep,
         url = templated_path ep,
         headers = [],
         body = Some (dict_set base_body field (inject_value field)),
         cookies = True,
         description = ''Mass assignment: Add suspicious field '' @ field @ ''=''
                       @ py_str (inject_value field)\<rparr>)"

definition generate_mass_assignment_tests :: "endpoint_dict \<Rightarrow> nat \<Rightarrow> test_case list" where
  "generate_mass_assignment_tests ep count =
     (if ep_method ep \<notin> set [''POST'', ''PUT'', ''PATCH''] then []
      else
        let base_body = (case sample_bodies ep of [] \<Rightarrow> [] | b # _ \<Rightarrow> b);
            suspicious_fields = take count SUSPICIOUS_FIELDS
        in map (mass_assignment_test ep base_body) (enumerate 0 suspicious_fields))"

section \<open>Differential analyzer: severity\<close>

text \<open>
  A \<open>DeepDiff\<close> result is a dictionary from report names (\<open>values_changed\<close>,
  \<open>dictionary_item_added\<close>, ...) to reports. Iterating over a report yields the paths
  it lists; \<open>rendered\<close> is what \<open>str\<close> gives for it.
\<close>

datatype severity = HIGH | MEDIUM | LOW

record report =
  paths :: "string list"
  rendered :: string

type_synonym deep_diff = "(string \<times> report) list"

definition is_sensitive :: "string \<Rightarrow> bool" where
  "is_sensitive field_path = (\<exists>s \<in> set SENSITIVE_FIELDS. py_in s (lower field_path))"

definition report_paths :: "deep_diff \<Rightarrow> string \<Rightarrow> string list" where
  "report_paths diff key = (case map_of diff key of None \<Rightarrow> [] | Some r \<Rightarrow> paths r)"

definition detect_sensitive_field_changes :: "deep_diff \<Rightarrow> string list" where
  "detect_sensitive_field_changes diff =
     filter is_sensitive (report_paths diff ''dictionary_item_added'')
     @ filter is_sensitive (report_paths diff ''dictionary_item_removed'')
     @ filter is_sensitive (report_paths diff ''values_changed'')"

text \<open>\<open>str(diff.get(key, ""))\<close>.\<close>

definition diff_get_str :: "deep_diff \<Rightarrow> string \<Rightarrow> string" where
  "diff_get_str diff key = (case map_of diff key of None \<Rightarrow> [] | Some r \<Rightarrow> rendered r)"

text \<open>Truth value of \<open>diff\<close>: \<open>None\<close> and the empty result are false.\<close>

definition truthy_diff :: "deep_diff option \<Rightarrow> bool" where
  "truthy_diff diff = (case diff of None \<Rightarrow> False | Some d \<Rightarrow> d \<noteq> [])"

definition status_change :: "(int \<times> int list) list \<Rightarrow> int \<Rightarrow> int \<Rightarrow> bool" where
  "status_change table baseline_status test_status =
     (case map_of table baseline_status of
        None \<Rightarrow> False
      | Some targets \<Rightarrow> test_status \<in> set targets)"

text \<open>
  The length check: \<open>abs(test_body_len - baseline_body_len) / baseline_body_len > 0.30\<close>
  for a positive \<open>baseline_body_len\<close>, over the integers.
\<close>

definition length_rule :: "deep_diff \<Rightarrow> bool" where
  "length_rule d =
     (let baseline_body_len = int (length (diff_get_str d ''old_value''));
          test_body_len = int (length (diff_get_str d ''new_value''))
      in baseline_body_len > 0
         \<and> 10 * \<bar>test_body_len - baseline_body_len\<bar> > 3 * baseline_body_len)"

definition calculate_severity :: "int \<Rightarrow> int \<Rightarrow> deep_diff option \<Rightarrow> string \<Rightarrow> severity" where
  "calculate_severity baseline_status test_status diff ttype =
     (if status_change STATUS_CHANGE_HIGH baseline_status test_status then HIGH
      else if status_change STATUS_CHANGE_MEDIUM baseline_status test_status then MEDIUM
      else if truthy_diff diff \<and> detect_sensitive_field_changes (the diff) \<noteq> [] then HIGH
      else if truthy_diff diff \<and> length_rule (the diff) then MEDIUM
      else if baseline_status = 200 \<and> test_status = 200 \<and> truthy_diff diff then
        (if ttype = ''IDOR'' then HIGH else MEDIUM)
      else LOW)"

text \<open>
  The result of the string comparison of \<open>compare_responses\<close>,
  \<open>DeepDiff({"body": baseline_body}, {"body": test_body})\<close> for two different strings:
  one changed value at the path of the key \<open>body\<close>. (The rendering is \<open>str\<close> of the
  report, exact for bodies without quotes, backslashes and control characters.)
\<close>

definition body_level_diff :: "string \<Rightarrow> string \<Rightarrow> deep_diff" where
  "body_level_diff baseline_body test_body =
     [(''values_changed'',
       \<lparr>paths = [''root['body']''],
        rendered = ''{'' @ [CHR 0x22] @ ''root['body']'' @ [CHR 0x22] @ '': {'new_value': ''
                   @ [CHR 0x27] @ test_body @ [CHR 0x27] @ '', 'old_value': ''
                   @ [CHR 0x27] @ baseline_body @ [CHR 0x27] @ ''}}''\<rparr>)]"

section \<open>Replay engine: captured body\<close>

text \<open>
  The body \<open>run_single_test\<close> stores for a response: \<open>None\<close> stands for a
  \<open>response.text\<close> that raises.
\<close>

definition capture_body :: "string option \<Rightarrow> string" where
  "capture_body text =
     (case text of
        None \<Rightarrow> ''(unable to read body)''
      | Some response_body \<Rightarrow>
          if length response_body > 20000
          then take 20000 response_body @ [CHR 0x0A] @ ''... (truncated)''
          else response_body)"

section \<open>Test generator: IDOR\<close>

text \<open>
  \<open>str.replace\<close>: every occurrence of \<open>old\<close>, from the left, without overlaps; an empty
  \<open>old\<close> matches before every character and at the end.
\<close>

function replace :: "string \<Rightarrow> string \<Rightarrow> string \<Rightarrow> string" where
  "replace old new s =
     (if old = [] then new @ concat (map (\<lambda>c. c # new) s)
      else if s = [] then []
      else if prefix old s then new @ replace old new (drop (length old) s)
      else hd s # replace old new (tl s))"
  by pat_completeness auto
termination
  by (relation "measure (\<lambda>(old, new, s). length s)") (auto simp: Suc_le_eq)

declare replace.simps [simp del]

text \<open>
  \<open>random.choice\<close>. The generator draws from the process-wide random source; the model
  reads the draws from a sequence \<open>rng\<close>, the \<open>k\<close>-th draw selecting the element at
  index \<open>rng k mod length xs\<close>, and every function that draws returns the position of
  the next draw.
\<close>

definition choice :: "(nat \<Rightarrow> nat) \<Rightarrow> nat \<Rightarrow> 'a list \<Rightarrow> 'a" where
  "choice rng k xs = xs ! (rng k mod length xs)"

definition pool_ids :: "id_pool \<Rightarrow> idval list" where
  "pool_ids pool_data =
     map IdInt (integer_ids pool_data) @ map IdStr (uuid_ids pool_data)
     @ map IdStr (string_ids pool_data)"

definition collect_all_id_pools :: "endpoint_dict list \<Rightarrow> (string \<times> idval list) list" where
  "collect_all_id_pools all_endpoints =
     foldl (\<lambda>all_id_pools ep.
              foldl (\<lambda>acc (pool_name, pool_data). dict_extend acc pool_name (pool_ids pool_data))
                all_id_pools (id_pools ep))
       [] all_endpoints"

text \<open>
  The search for a target: the first pool of another name that holds a value other than
  the original identifier; the target is drawn from those values.
\<close>

fun find_target ::
  "(nat \<Rightarrow> nat) \<Rightarrow> nat \<Rightarrow> string \<Rightarrow> idval \<Rightarrow> (string \<times> idval list) list
   \<Rightarrow> (string \<times> idval) option" where
  "find_target rng k source_pool_name original_id [] = None"
| "find_target rng k source_pool_name original_id ((pool_name, ids) # rest) =
     (if pool_name \<noteq> source_pool_name \<and> ids \<noteq> []
         \<and> filter (\<lambda>id_val. id_val \<noteq> original_id) ids \<noteq> []
      then Some (pool_name, choice rng k (filter (\<lambda>id_val. id_val \<noteq> original_id) ids))
      else find_target rng k source_pool_name original_id rest)"

fun str_id :: "idval \<Rightarrow> string" where
  "str_id (IdInt i) = str_int i"
| "str_id (IdStr s) = s"

fun json_of_id :: "idval \<Rightarrow> json" where
  "json_of_id (IdInt i) = JInt i"
| "json_of_id (IdStr s) = JStr s"

text \<open>\<open>not target_id\<close> for a target that was found: the integer 0 and the empty string.\<close>

fun falsy_id :: "idval \<Rightarrow> bool" where
  "falsy_id (IdInt i) = (i = 0)"
| "falsy_id (IdStr s) = (s = [])"

definition idor_url :: "string \<Rightarrow> idval \<Rightarrow> string" where
  "idor_url path target_id =
     replace ''{param}'' (str_id target_id)
       (replace ''{id:uuid}'' (str_id target_id)
          (replace ''{id:int}'' (str_id target_id) path))"

definition idor_body :: "endpoint_dict \<Rightarrow> string \<Rightarrow> idval \<Rightarrow> jdict option" where
  "idor_body ep source_pool_name target_id =
     (case sample_bodies ep of
        [] \<Rightarrow> None
      | b # _ \<Rightarrow>
          Some (map (\<lambda>(key, v).
                  if key = source_pool_name \<or> py_in ''id'' (lower key)
                  then (key, json_of_id target_id) else (key, v)) b))"

text \<open>
  One pass of the loop body for the index \<open>i\<close>, starting at draw \<open>k\<close>: the test it
  appends, if any, and the position of the next draw.
\<close>

definition idor_iteration ::
  "(nat \<Rightarrow> nat) \<Rightarrow> endpoint_dict \<Rightarrow> (string \<times> idval list) list \<Rightarrow> nat \<Rightarrow> nat
   \<Rightarrow> test_case option \<times> nat" where
  "idor_iteration rng ep all_id_pools i k =
     (let (source_pool_name, source_pool) = choice rng k (id_pools ep);
          source_ids = pool_ids source_pool
      in if source_ids = [] then (None, k + 1)
         else
           let original_id = choice rng (k + 1) source_ids
           in case find_target rng (k + 2) source_pool_name original_id all_id_pools of
                None \<Rightarrow> (None, k + 2)
              | Some (target_pool_name, target_id) \<Rightarrow>
                  if falsy_id target_id then (None, k + 3)
                  else
                    (Some
                      \<lparr>test_id = ''idor_'' @ templated_path ep @ ''_'' @ str_nat i,
                       test_type = ''IDOR'',
                       endpoint = templated_path ep,
                       tc_method = ep_method ep,
                       url = idor_url (templated_path ep) target_id,
                       headers = [],
                       body = idor_body ep source_pool_name target_id,
                       cookies = True,
                       description = ''IDOR: Replace '' @ source_pool_name @ ''=''
                         @ str_id original_id @ '' with '' @ target_pool_name @ ''=''
                         @ str_id target_id\<rparr>,
                     k + 3))"

fun idor_loop ::
  "(nat \<Rightarrow> nat) \<Rightarrow> endpoint_dict \<Rightarrow> (string \<times> idval list) list \<Rightarrow> nat list \<Rightarrow> nat
   \<Rightarrow> test_case list \<times> nat" where
  "idor_loop rng ep all_id_pools [] k = ([], k)"
| "idor_loop rng ep all_id_pools (i # is) k =
     (case idor_iteration rng ep all_id_pools i k of
        (None, k') \<Rightarrow> idor_loop rng ep all_id_pools is k'
      | (Some t, k') \<Rightarrow>
          (case idor_loop rng ep all_id_pools is k' of (ts, k'') \<Rightarrow> (t # ts, k'')))"

definition generate_idor_tests ::
  "(nat \<Rightarrow> nat) \<Rightarrow> nat \<Rightarrow> endpoint_dict \<Rightarrow> endpoint_dict list \<Rightarrow> nat
   \<Rightarrow> test_case list \<times> nat" where
  "generate_idor_tests rng k ep all_endpoints count =
     (if id_pools ep = [] then ([], k)
      else
        case idor_loop rng ep (collect_all_id_pools all_endpoints)
               [0 ..< min count (length (id_pools ep) * 5)] k of
          (tests, k') \<Rightarrow> (take count tests, k'))"

section \<open>Test generator: AUTH\_BYPASS and METHOD\_CONFUSION\<close>

definition generate_auth_bypass_tests :: "endpoint_dict \<Rightarrow> nat \<Rightarrow> test_case list" where
  "generate_auth_bypass_tests ep count =
     map (\<lambda>i.
        \<lparr>test_id = ''auth_bypass_'' @ templated_path ep @ ''_'' @ str_nat i,
         test_type = ''AUTH_BYPASS'',
         endpoint = templated_path ep,
         tc_method = ep_method ep,
         url = templated_path ep,
         headers = [],
         body = None,
         cookies = False,
         description = ''Auth bypass: Remove authentication cookies/headers''\<rparr>)
       [0 ..< count]"

definition alternative_methods :: "string \<Rightarrow> bool \<Rightarrow> nat \<Rightarrow> string list" where
  "alternative_methods original_method allow_destructive count =
     (let ms = filter (\<lambda>m. m \<noteq> original_method) HTTP_METHODS;
          ms' = (if \<not> allow_destructive then filter (\<lambda>m. m \<notin> set DESTRUCTIVE_METHODS) ms
                 else ms)
      in take count ms')"

definition generate_method_confusion_tests ::
  "endpoint_dict \<Rightarrow> bool \<Rightarrow> nat \<Rightarrow> test_case list" where
  "generate_method_confusion_tests ep allow_destructive count =
     map (\<lambda>m.
        \<lparr>test_id = ''method_confusion_'' @ templated_path ep @ ''_'' @ m,
         test_type = ''METHOD_CONFUSION'',
         endpoint = templated_path ep,
         tc_method = m,
         url = templated_path ep,
         headers = [],
         body = (case sample_bodies ep of [] \<Rightarrow> None | b # _ \<Rightarrow> Some b),
         cookies = True,
         description = ''Method confusion: Try '' @ m @ '' instead of '' @ ep_method ep\<rparr>)
       (alternative_methods (ep_method ep) allow_destructive count)"

section \<open>Test generator: all classes\<close>

text \<open>
  The body of the loop of \<open>generate_tests\<close> for one endpoint, with the default counts
  of the four generators, and the loop itself; the draws go on from endpoint to endpoint.
\<close>

definition endpoint_tests ::
  "(nat \<Rightarrow> nat) \<Rightarrow> nat \<Rightarrow> endpoint_dict list \<Rightarrow> nat \<Rightarrow> bool \<Rightarrow> endpoint_dict
   \<Rightarrow> test_case list \<times> nat" where
  "endpoint_tests rng k endpoints max_tests allow_destructive ep =
     (case generate_idor_tests rng k ep endpoints IDOR_TEST_COUNT of
        (idor_tests, k') \<Rightarrow>
          (take max_tests
             (idor_tests
              @ generate_auth_bypass_tests ep AUTH_BYPASS_TEST_COUNT
              @ generate_method_confusion_tests ep allow_destructive METHOD_CONFUSION_TEST_COUNT
              @ generate_mass_assignment_tests ep MASS_ASSIGNMENT_TEST_COUNT),
           k'))"

fun generate_tests_from ::
  "(nat \<Rightarrow> nat) \<Rightarrow> nat \<Rightarrow> endpoint_dict list \<Rightarrow> nat \<Rightarrow> bool \<Rightarrow> endpoint_dict list
   \<Rightarrow> test_case list" where
  "generate_tests_from rng k endpoints max_tests allow_destructive [] = []"
| "generate_tests_from rng k endpoints max_tests allow_destructive (ep # eps) =
     (case endpoint_tests rng k endpoints max_tests allow_destructive ep of
        (ts, k') \<Rightarrow> ts @ generate_tests_from rng k' endpoints max_tests allow_destructive eps)"

definition generate_tests :: "(nat \<Rightarrow> nat) \<Rightarrow> endpoint_dict list \<Rightarrow> nat \<Rightarrow> bool \<Rightarrow> test_case list" where
  "generate_tests rng endpoints max_tests allow_destructive =
     generate_tests_from rng 0 endpoints max_tests allow_destructive endpoints"

section \<open>Scenario: two endpoints with one integer pool each\<close>

text \<open>
  The endpoints of the cross-pool scenario: \<open>/users/{id:int}\<close> with the integer pool
  {1, 2} and \<open>/projects/{id:int}\<close> with the integer pool {100}, each pool under a
  given name.
\<close>

definition users_endpoint :: "string \<Rightarrow> endpoint_dict" where
  "users_endpoint pool_name =
     \<lparr>ep_method = ''GET'', templated_path = ''/users/{id:int}'', sample_bodies = [],
      id_pools = [(pool_name, \<lparr>integer_ids = [1, 2], uuid_ids = [], string_ids = []\<rparr>)]\<rparr>"

definition projects_endpoint :: "string \<Rightarrow> endpoint_dict" where
  "projects_endpoint pool_name =
     \<lparr>ep_method = ''GET'', templated_path = ''/projects/{id:int}'', sample_bodies = [],
      id_pools = [(pool_name, \<lparr>integer_ids = [100], uuid_ids = [], string_ids = []\<rparr>)]\<rparr>"

section \<open>Endpoint modeler\<close>

text \<open>
  An entry of the capture log. \<open>req_response\<close> is \<open>None\<close> for an entry without the key
  \<open>response\<close>.
\<close>

record response =
  status :: int
  status_text :: string
  resp_headers :: "(string \<times> string) list"
  resp_body :: string

record captured_request =
  req_method :: string
  req_url :: string
  req_headers :: "(string \<times> string) list"
  post_data :: string
  req_response :: "response option"

text \<open>\<open>EndpointModel\<close>, its three parameter dictionaries as fields.\<close>

record endpoint_model =
  em_method :: string
  em_templated_path :: string
  path_params :: "(string \<times> string list) list"
  query_params :: "(string \<times> string list) list"
  body_params :: "(string \<times> string list) list"
  em_sample_bodies :: "jdict list"
  observed_ids :: "(string \<times> string list) list"

text \<open>
  The template of one segment: \<open>seen\<close> holds the segments the seen paths have at the
  index \<open>i\<close>.
\<close>

definition template_segment :: "string list \<Rightarrow> string list \<Rightarrow> nat \<times> string \<Rightarrow> string" where
  "template_segment seen_paths segments p =
     (case p of (i, segment) \<Rightarrow>
        let seen = map (\<lambda>seen_path. split CHR ''/'' seen_path ! i)
                     (filter (\<lambda>seen_path. i < length (split CHR ''/'' seen_path)) seen_paths);
            is_numeric = list_ex isdigit seen;
            is_uuid = list_ex (\<lambda>seg. \<not> isdigit seg \<and> matches_uuid seg) seen
        in if is_numeric then ''{id:int}''
           else if is_uuid then ''{id:uuid}''
           else if segment \<noteq> hd segments \<and> list_ex (\<lambda>seg. seg \<noteq> segment) seen then ''{param}''
           else segment)"

definition detect_template_path :: "string \<Rightarrow> string list \<Rightarrow> string" where
  "detect_template_path path seen_paths =
     (if seen_paths = [] then path
      else
        let segments = split CHR ''/'' path
        in join ''/'' (map (template_segment seen_paths segments) (enumerate 0 segments)))"

definition extract_json_body :: "(string \<Rightarrow> json option) \<Rightarrow> string \<Rightarrow> json option" where
  "extract_json_body loads b =
     (if b = [] \<or> b = ''(unable to read body)'' then None else loads b)"

text \<open>
  The groups of \<open>parse_requests\<close>: the entries with a response, under the key of
  method and path, in the order of the first entry of each key. An entry without a
  response is passed over before its URL is parsed; a URL that does not parse ends the
  loop with the exception.
\<close>

fun group_requests_from ::
  "((string \<times> string) \<times> captured_request list) list \<Rightarrow> captured_request list
   \<Rightarrow> error + ((string \<times> string) \<times> captured_request list) list" where
  "group_requests_from groups [] = Inr groups"
| "group_requests_from groups (req # reqs) =
     (case req_response req of
        None \<Rightarrow> group_requests_from groups reqs
      | Some _ \<Rightarrow>
          (case normalize_url (req_url req) of
             Inl e \<Rightarrow> Inl e
           | Inr (p, q) \<Rightarrow>
               group_requests_from (dict_extend groups (req_method req, p) [req]) reqs))"

definition group_requests ::
  "captured_request list \<Rightarrow> error + ((string \<times> string) \<times> captured_request list) list" where
  "group_requests requests_data = group_requests_from [] requests_data"

text \<open>
  The modeler collects values in sets and lists them afterwards. A set is modelled by the
  list of its elements in the order of their first insertion; Python fixes no order here.
  \<open>set_update d k vs\<close> is \<open>d[k].update(vs)\<close> on a dictionary of sets that creates
  missing entries.
\<close>

definition set_add :: "'a list \<Rightarrow> 'a \<Rightarrow> 'a list" where
  "set_add xs v = (if v \<in> set xs then xs else xs @ [v])"

fun set_update :: "(string \<times> 'a list) list \<Rightarrow> string \<Rightarrow> 'a list \<Rightarrow> (string \<times> 'a list) list" where
  "set_update [] k vs = [(k, foldl set_add [] vs)]"
| "set_update ((k', vs') # d) k vs =
     (if k' = k then (k', foldl set_add vs' vs) # d else (k', vs') # set_update d k vs)"

text \<open>
  The loops over the queries and over the paths of a group. The code parses the URL of
  each entry again in each loop; \<open>build_endpoint\<close> below parses the URLs of the group
  once and hands the queries to the one loop and the paths to the other.
\<close>

definition query_analysis ::
  "(string \<Rightarrow> (string \<times> string list) list) \<Rightarrow> string list \<Rightarrow> (string \<times> string list) list" where
  "query_analysis qs_parser queries =
     foldl (\<lambda>qp query.
              if query = [] then qp
              else foldl (\<lambda>qp' (key, vals). set_update qp' key vals) qp (qs_parser query))
       [] queries"

definition path_analysis :: "string \<Rightarrow> string list \<Rightarrow> (string \<times> string list) list" where
  "path_analysis base_path request_paths =
     foldl (\<lambda>pp request_path.
              let path_segments = split CHR ''/'' request_path;
                  base_segments = split CHR ''/'' base_path
              in foldl (\<lambda>pp' (i, seg, base_seg).
                          if seg \<noteq> base_seg then set_update pp' (''param_'' @ str_nat i) [seg]
                          else pp')
                   pp (enumerate 0 (zip path_segments base_segments)))
       [] request_paths"

text \<open>
  The text the body analysis parses for an entry: the request body, or the response body
  when the request body is empty.
\<close>

definition body_str :: "captured_request \<Rightarrow> string" where
  "body_str req =
     (if post_data req \<noteq> [] then post_data req
      else (case req_response req of None \<Rightarrow> [] | Some r \<Rightarrow> resp_body r))"

text \<open>Truth value of a parsed body, and \<open>isinstance(value, (str, int, float, bool))\<close>.\<close>

fun truthy :: "json \<Rightarrow> bool" where
  "truthy JNull = False"
| "truthy (JBool b) = b"
| "truthy (JInt i) = (i \<noteq> 0)"
| "truthy (JStr s) = (s \<noteq> [])"
| "truthy (JArr xs) = (xs \<noteq> [])"
| "truthy (JObj d) = (d \<noteq> [])"

fun is_scalar :: "json \<Rightarrow> bool" where
  "is_scalar (JBool b) = True"
| "is_scalar (JInt i) = True"
| "is_scalar (JStr s) = True"
| "is_scalar v = False"

text \<open>
  One pass of the body loop over the pair of \<open>sample_bodies\<close> and \<open>body_params\<close>. A
  parsed body that is true and is not an object has no \<open>items\<close>: the loop raises.
\<close>

definition body_step ::
  "(string \<Rightarrow> json option) \<Rightarrow> jdict list \<times> (string \<times> string list) list \<Rightarrow> captured_request
   \<Rightarrow> error + jdict list \<times> (string \<times> string list) list" where
  "body_step loads acc req =
     (case extract_json_body loads (body_str req) of
        None \<Rightarrow> Inr acc
      | Some json_body \<Rightarrow>
          if \<not> truthy json_body then Inr acc
          else
            (case json_body of
               JObj d \<Rightarrow>
                 Inr (fst acc @ [d],
                      foldl (\<lambda>bp (key, v). if is_scalar v then set_update bp key [py_str v] else bp)
                        (snd acc) d)
             | _ \<Rightarrow> Inl AttributeError))"

fun body_analysis ::
  "(string \<Rightarrow> json option) \<Rightarrow> jdict list \<times> (string \<times> string list) list \<Rightarrow> captured_request list
   \<Rightarrow> error + jdict list \<times> (string \<times> string list) list" where
  "body_analysis loads acc [] = Inr acc"
| "body_analysis loads acc (req # reqs) =
     (case body_step loads acc req of
        Inl e \<Rightarrow> Inl e
      | Inr acc' \<Rightarrow> body_analysis loads acc' reqs)"

definition collect_observed_ids ::
  "(string \<times> string list) list \<Rightarrow> (string \<times> string list) list \<Rightarrow> (string \<times> string list) list
   \<Rightarrow> (string \<times> string list) list" where
  "collect_observed_ids pp qp bp =
     (let id_like = (\<lambda>(param_name, vals). py_in ''id'' (lower param_name));
          store = (\<lambda>obs (param_name, vals). dict_set obs param_name (take 20 vals))
      in foldl store (foldl store (foldl store [] pp) (filter id_like qp)) (filter id_like bp))"

fun collect_results :: "(error + 'a) list \<Rightarrow> error + 'a list" where
  "collect_results [] = Inr []"
| "collect_results (Inl e # rs) = Inl e"
| "collect_results (Inr x # rs) =
     (case collect_results rs of Inl e \<Rightarrow> Inl e | Inr xs \<Rightarrow> Inr (x # xs))"

definition build_endpoint ::
  "(string \<Rightarrow> json option) \<Rightarrow> (string \<Rightarrow> (string \<times> string list) list)
   \<Rightarrow> (string \<times> string) \<times> captured_request list \<Rightarrow> error + endpoint_model" where
  "build_endpoint loads qs_parser g =
     (case g of ((m, base_path), requests) \<Rightarrow>
        (case collect_results (map (\<lambda>req. normalize_url (req_url req)) requests) of
           Inl e \<Rightarrow> Inl e
         | Inr parts \<Rightarrow>
             let all_paths = map fst parts;
                 qp = query_analysis qs_parser (map snd parts);
                 pp = path_analysis base_path all_paths
             in case body_analysis loads ([], []) requests of
                  Inl e \<Rightarrow> Inl e
                | Inr (samples, bp) \<Rightarrow>
                    Inr \<lparr>em_method = m,
                         em_templated_path = detect_template_path base_path all_paths,
                         path_params = pp,
                         query_params = qp,
                         body_params = map (\<lambda>(k, v). (k, take 10 v)) bp,
                         em_sample_bodies = take 5 samples,
                         observed_ids =
                           collect_observed_ids pp qp (map (\<lambda>(k, v). (k, take 10 v)) bp)\<rparr>))"

definition parse_requests ::
  "(string \<Rightarrow> json option) \<Rightarrow> (string \<Rightarrow> (string \<times> string list) list)
   \<Rightarrow> captured_request list \<Rightarrow> error + endpoint_model list" where
  "parse_requests loads qs_parser requests_data =
     (case group_requests requests_data of
        Inl e \<Rightarrow> Inl e
      | Inr groups \<Rightarrow> collect_results (map (build_endpoint loads qs_parser) groups))"

section \<open>Notions for the body analysis\<close>

text \<open>
  An entry contributes to the body analysis when the text the analysis parses for it
  yields a JSON value that is true; its contribution to \<open>sample_bodies\<close> is then the
  parsed object.
\<close>

definition contributes :: "(string \<Rightarrow> json option) \<Rightarrow> captured_request \<Rightarrow> bool" where
  "contributes loads req =
     (case extract_json_body loads (body_str req) of None \<Rightarrow> False | Some v \<Rightarrow> truthy v)"

definition body_contribution :: "(string \<Rightarrow> json option) \<Rightarrow> captured_request \<Rightarrow> jdict list" where
  "body_contribution loads req =
     (case extract_json_body loads (body_str req) of
        Some (JObj d) \<Rightarrow> if d = [] then [] else [d]
      | _ \<Rightarrow> [])"

text \<open>
  A log entry with a response of status 200, given by method, URL, request body and
  response body; and the JSON text \<open>{"a": 1}\<close>.
\<close>

definition captured :: "string \<Rightarrow> string \<Rightarrow> string \<Rightarrow> string \<Rightarrow> captured_request" where
  "captured m u request_body response_body =
     \<lparr>req_method = m, req_url = u, req_headers = [], post_data = request_body,
      req_response = Some \<lparr>status = 200, status_text = ''OK'', resp_headers = [],
                           resp_body = response_body\<rparr>\<rparr>"

definition json_a1 :: string where
  "json_a1 = ''{'' @ [CHR 0x22] @ ''a'' @ [CHR 0x22] @ '': 1}''"

section \<open>Replay engine: one test\<close>

definition DEFAULT_RESEARCHER_HEADER :: "(string \<times> string) list" where
  "DEFAULT_RESEARCHER_HEADER = [(''User-Agent'', ''surfacerecon/1.0'')]"

text \<open>\<open>d.update(other)\<close>.\<close>

definition dict_update :: "(string \<times> 'v) list \<Rightarrow> (string \<times> 'v) list \<Rightarrow> (string \<times> 'v) list" where
  "dict_update d other = foldl (\<lambda>acc (k, v). dict_set acc k v) d other"

text \<open>
  The keyword arguments of \<open>client.request\<close>; \<open>hr_cookies\<close> and \<open>hr_json\<close> are
  \<open>None\<close> when the key is not set.
\<close>

record http_request =
  hr_method :: string
  hr_url :: string
  hr_headers :: "(string \<times> string) list"
  hr_timeout :: nat
  hr_cookies :: "(string \<times> string) list option"
  hr_json :: "jdict option"

text \<open>
  What awaiting \<open>client.request\<close> gives: a response (status code, reason phrase,
  headers, and the text, \<open>None\<close> when reading it raises), or one of the three kinds of
  exception the handlers tell apart, with \<open>str\<close> of the exception.
\<close>

datatype http_outcome =
    Responded int string "(string \<times> string) list" "string option"
  | TimeoutException
  | RequestError string
  | OtherException string

record test_result =
  tr_test_id :: string
  tr_test_type :: string
  tr_endpoint :: string
  tr_method :: string
  tr_url :: string
  tr_timestamp :: string
  tr_success :: bool
  tr_error :: "string option"
  tr_response :: "response option"

definition build_request ::
  "(string \<times> string) list option \<Rightarrow> (string \<times> string) list option \<Rightarrow> test_case \<Rightarrow> http_request" where
  "build_request session_cookies default_headers test =
     (let request_headers =
            dict_update
              (dict_update (case default_headers of None \<Rightarrow> [] | Some h \<Rightarrow> h)
                 DEFAULT_RESEARCHER_HEADER)
              (headers test);
          cookie_dict =
            (case session_cookies of
               None \<Rightarrow> []
             | Some cs \<Rightarrow> if cookies test then dict_update [] cs else [])
      in \<lparr>hr_method = tc_method test,
          hr_url = url test,
          hr_headers = request_headers,
          hr_timeout = 30,
          hr_cookies = (if cookie_dict \<noteq> [] then Some cookie_dict else None),
          hr_json =
            (case body test of
               None \<Rightarrow> None
             | Some b \<Rightarrow>
                 if b \<noteq> [] \<and> tc_method test \<in> set [''POST'', ''PUT'', ''PATCH'']
                 then Some b else None)\<rparr>)"

text \<open>
  \<open>run_single_test\<close> after the rate token: \<open>client\<close> answers the request, \<open>now\<close> is
  the timestamp read.
\<close>

definition run_single_test ::
  "(http_request \<Rightarrow> http_outcome) \<Rightarrow> (string \<times> string) list option
   \<Rightarrow> (string \<times> string) list option \<Rightarrow> string \<Rightarrow> test_case \<Rightarrow> test_result" where
  "run_single_test client session_cookies default_headers now test =
     (let result =
            \<lparr>tr_test_id = test_id test,
             tr_test_type = test_type test,
             tr_endpoint = endpoint test,
             tr_method = tc_method test,
             tr_url = url test,
             tr_timestamp = now,
             tr_success = False,
             tr_error = None,
             tr_response = None\<rparr>
      in case client (build_request session_cookies default_headers test) of
           Responded code reason hs txt \<Rightarrow>
             result\<lparr>tr_response :=
                       Some \<lparr>status = code, status_text = reason, resp_headers = hs,
                             resp_body = capture_body txt\<rparr>,
                    tr_success := True\<rparr>
         | TimeoutException \<Rightarrow> result\<lparr>tr_error := Some ''Request timeout''\<rparr>
         | RequestError detail \<Rightarrow> result\<lparr>tr_error := Some (''Request error: '' @ detail)\<rparr>
         | OtherException detail \<Rightarrow> result\<lparr>tr_error := Some (''Unexpected error: '' @ detail)\<rparr>)"

section \<open>Replay engine: rate limiter\<close>

text \<open>
  \<open>RateLimiter\<close>. Times are rational numbers of seconds. The constructor divides by the
  rate and raises for the rate 0.
\<close>

record rate_limiter =
  requests_per_second :: rat
  min_interval :: rat
  last_request_time :: rat

definition RateLimiter :: "rat \<Rightarrow> error + rate_limiter" where
  "RateLimiter r =
     (if r = 0 then Inl ZeroDivisionError
      else Inr \<lparr>requests_per_second = r, min_interval = 1 / r, last_request_time = 0\<rparr>)"

text \<open>
  \<open>acquire\<close> has one point of suspension, the \<open>await\<close> of \<open>asyncio.sleep\<close>; what comes
  before it and what comes after it each run without interruption by another task.
  \<open>acquire_sleep\<close> is the part before it: for the clock reading \<open>current_time\<close>, the
  duration the task sleeps, or \<open>None\<close> when it does not sleep. \<open>acquire_finish\<close> is the
  last statement, which stores the clock reading \<open>t\<close>; with it the token is granted.
\<close>

definition acquire_sleep :: "rate_limiter \<Rightarrow> rat \<Rightarrow> rat option" where
  "acquire_sleep rl current_time =
     (let time_since_last = current_time - last_request_time rl
      in if time_since_last < min_interval rl then Some (min_interval rl - time_since_last)
         else None)"

definition acquire_finish :: "rate_limiter \<Rightarrow> rat \<Rightarrow> rate_limiter" where
  "acquire_finish rl t = rl\<lparr>last_request_time := t\<rparr>"

text \<open>
  The tasks of \<open>run_tests\<close> share one limiter and run on one event loop. An event is a
  task running from one suspension to the next: \<open>Enter task t t'\<close> is the task calling
  \<open>acquire\<close> and reading the clock as \<open>t\<close>, and as \<open>t'\<close> for the last statement when it
  does not sleep; \<open>Resume task t\<close> is the task coming back from its sleep and reading the
  clock as \<open>t\<close>. The state holds the limiter, the latest clock reading, the sleeping tasks
  with the earliest time each may come back, and the tokens granted so far with their
  instants. An event is possible when the clock does not go back, the entering task is
  not asleep, and the resuming task has slept for its duration.
\<close>

datatype event = Enter nat rat rat | Resume nat rat

record loop_state =
  limiter :: rate_limiter
  clock_now :: rat
  sleeping :: "(nat \<times> rat) list"
  grants :: "(nat \<times> rat) list"

fun step :: "loop_state \<Rightarrow> event \<Rightarrow> loop_state option" where
  "step st (Enter task t t') =
     (if clock_now st \<le> t \<and> t \<le> t' \<and> map_of (sleeping st) task = None then
        (case acquire_sleep (limiter st) t of
           Some d \<Rightarrow> Some (st\<lparr>clock_now := t, sleeping := sleeping st @ [(task, t + d)]\<rparr>)
         | None \<Rightarrow>
             Some (st\<lparr>clock_now := t', limiter := acquire_finish (limiter st) t',
                      grants := grants st @ [(task, t')]\<rparr>))
      else None)"
| "step st (Resume task t) =
     (case map_of (sleeping st) task of
        None \<Rightarrow> None
      | Some wake \<Rightarrow>
          if clock_now st \<le> t \<and> wake \<le> t then
            Some (st\<lparr>clock_now := t, limiter := acquire_finish (limiter st) t,
                     sleeping := filter (\<lambda>p. fst p \<noteq> task) (sleeping st),
                     grants := grants st @ [(task, t)]\<rparr>)
          else None)"

fun run_events :: "loop_state \<Rightarrow> event list \<Rightarrow> loop_state option" where
  "run_events st [] = Some st"
| "run_events st (e # es) =
     (case step st e of None \<Rightarrow> None | Some st' \<Rightarrow> run_events st' es)"

definition run_limiter :: "rat \<Rightarrow> event list \<Rightarrow> loop_state option" where
  "run_limiter r es =
     (case RateLimiter r of
        Inl e \<Rightarrow> None
      | Inr rl \<Rightarrow> run_events \<lparr>limiter = rl, clock_now = 0, sleeping = [], grants = []\<rparr> es)"

section \<open>Replay engine: all tests\<close>












section \<open>Scenario: five replayed tests\<close>



section \<open>Notions for the sensitive-field rule\<close>

text \<open>
  The paths the sensitive-field check scans, all paths a diff lists, and the tokens of
  \<open>SENSITIVE_FIELDS\<close> that are written in lower case. \<open>mentions_sensitive_token\<close> is
  the notion of the specification: the path contains a token, letter case ignored on
  both sides.
\<close>

definition LOWER_CASE_TOKENS :: "string list" where
  "LOWER_CASE_TOKENS =
     [''owner_id'', ''user_id'', ''email'', ''role'', ''roles'', ''is_admin'', ''permissions'',
      ''access_level'']"

definition scanned_paths :: "deep_diff \<Rightarrow> string list" where
  "scanned_paths d =
     report_paths d ''dictionary_item_added'' @ report_paths d ''dictionary_item_removed''
     @ report_paths d ''values_changed''"

definition diff_paths :: "deep_diff \<Rightarrow> string list" where
  "diff_paths d = concat (map (\<lambda>kr. paths (snd kr)) d)"

definition mentions_sensitive_token :: "string \<Rightarrow> bool" where
  "mentions_sensitive_token p = (\<exists>tok \<in> set SENSITIVE_FIELDS. py_in (lower tok) (lower p))"

section \<open>Properties of the MASS\_ASSIGNMENT generator\<close>

lemma lower_permissions: "lower ''permissions'' = ''permissions''"
  by (simp add: lower_def lower_char_def)

lemma lower_permission: "lower ''permission'' = ''permission''"
  by (simp add: lower_def lower_char_def)

text \<open>
  C5 (evaluation at the failing input). The claim says that the fields \<open>permissions\<close>
  and \<open>permission\<close> are injected with the string \<open>"full"\<close>. Both names contain
  \<open>is\<close>, which the first branch of the chain tests by containment, so the code
  injects the boolean true for both: with a count of 10, the ninth and tenth tests of a
  \<open>POST\<close> endpoint carry the bodies \<open>{"permissions": true}\<close> and
  \<open>{"permission": true}\<close>.
\<close>

theorem C5_permissions_injected_true:
  "inject_value ''permissions'' = JBool True \<and> inject_value ''permission'' = JBool True
   \<and> inject_value ''permissions'' \<noteq> JStr ''full'' \<and> inject_value ''permission'' \<noteq> JStr ''full''
   \<and> map body
        (drop 8
           (generate_mass_assignment_tests
              \<lparr>ep_method = ''POST'', templated_path = ''/api/users'', sample_bodies = [],
               id_pools = []\<rparr>
              10))
     = [Some [(''permissions'', JBool True)], Some [(''permission'', JBool True)]]"
  by (simp add: inject_value_def lower_permissions lower_permission
      generate_mass_assignment_tests_def mass_assignment_test_def SUSPICIOUS_FIELDS_def)

lemma inject_value_permission_unreachable:
  "py_in ''is'' (lower field) \<Longrightarrow> inject_value field = JBool True"
  by (simp add: inject_value_def)

section \<open>Properties of the severity procedure\<close>

lemma status_change_high_iff:
  "status_change STATUS_CHANGE_HIGH b t \<longleftrightarrow> b \<in> {401, 403, 404} \<and> t \<in> {200, 201, 204}"
  by (auto simp: status_change_def STATUS_CHANGE_HIGH_def)

lemma status_change_medium_iff:
  "status_change STATUS_CHANGE_MEDIUM b t \<longleftrightarrow> b \<in> {400, 404} \<and> t \<in> {200, 201, 204}"
  by (auto simp: status_change_def STATUS_CHANGE_MEDIUM_def)

lemma py_in_role: "py_in ''role'' (lower ''root['role']'')"
  by (simp add: lower_def lower_char_def)

lemma is_sensitive_role: "is_sensitive ''root['role']''"
  unfolding is_sensitive_def SENSITIVE_FIELDS_def using py_in_role by simp

text \<open>
  The length check reads the keys \<open>old_value\<close> and \<open>new_value\<close> of the diff itself.
  A diff without a top-level key \<open>old_value\<close> never passes it.
\<close>

lemma length_rule_dead: "map_of d ''old_value'' = None \<Longrightarrow> \<not> length_rule d"
  by (simp add: length_rule_def diff_get_str_def)

lemma body_level_diff_no_old_value: "map_of (body_level_diff b t) ''old_value'' = None"
  by (simp add: body_level_diff_def)

lemma body_level_diff_not_sensitive:
  "detect_sensitive_field_changes (body_level_diff b t) = []"
  by (simp add: detect_sensitive_field_changes_def report_paths_def body_level_diff_def
      is_sensitive_def SENSITIVE_FIELDS_def lower_def lower_char_def)

text \<open>
  C4 (counterexample). A diff with a changed value at the path of the key \<open>role\<close> has a
  sensitive path, yet with baseline status 400 and test status 200 the severity is MEDIUM,
  not HIGH: the status table of the MEDIUM rule is consulted before the sensitive fields.
\<close>

theorem C4_sensitive_after_status_medium:
  "detect_sensitive_field_changes
     [(''values_changed'', \<lparr>paths = [''root['role']''], rendered = []\<rparr>)] \<noteq> []
   \<and> calculate_severity 400 200
        (Some [(''values_changed'', \<lparr>paths = [''root['role']''], rendered = []\<rparr>)])
        ''AUTH_BYPASS'' = MEDIUM
   \<and> calculate_severity 400 200
        (Some [(''values_changed'', \<lparr>paths = [''root['role']''], rendered = []\<rparr>)])
        ''AUTH_BYPASS'' \<noteq> HIGH"
  by (simp add: detect_sensitive_field_changes_def report_paths_def is_sensitive_role
      calculate_severity_def status_change_high_iff status_change_medium_iff)

lemma py_in_set: "py_in s t \<Longrightarrow> set s \<subseteq> set t"
proof (induction t)
  case Nil
  then show ?case by simp
next
  case (Cons a t)
  from Cons.prems have "prefix s (a # t) \<or> py_in s t" by simp
  then show ?case
  proof
    assume "prefix s (a # t)"
    then show ?thesis by (rule set_mono_prefix)
  next
    assume "py_in s t"
    with Cons.IH show ?thesis by auto
  qed
qed

lemma lower_char_not_upper: "lower_char c \<notin> set ''ABCDEFGHIJKLMNOPQRSTUVWXYZ''"
  by (auto simp: lower_char_def)

lemma lower_not_upper:
  "u \<in> set ''ABCDEFGHIJKLMNOPQRSTUVWXYZ'' \<Longrightarrow> u \<notin> set (lower p)"
  using lower_char_not_upper by (auto simp: lower_def)

lemma camel_case_never_matches:
  "\<not> py_in ''ownerId'' (lower p)" "\<not> py_in ''userId'' (lower p)"
  "\<not> py_in ''isAdmin'' (lower p)" "\<not> py_in ''accessLevel'' (lower p)"
  using lower_not_upper [of "CHR ''I''" p] lower_not_upper [of "CHR ''A''" p]
    lower_not_upper [of "CHR ''L''" p]
  by (auto dest!: py_in_set)

lemma is_sensitive_iff:
  "is_sensitive p \<longleftrightarrow> (\<exists>tok \<in> set LOWER_CASE_TOKENS. py_in tok (lower p))"
  by (simp add: is_sensitive_def SENSITIVE_FIELDS_def LOWER_CASE_TOKENS_def
      camel_case_never_matches)

lemma lower_tokens: "tok \<in> set LOWER_CASE_TOKENS \<Longrightarrow> lower tok = tok \<and> tok \<in> set SENSITIVE_FIELDS"
  by (auto simp: LOWER_CASE_TOKENS_def SENSITIVE_FIELDS_def lower_def lower_char_def)

lemma is_sensitive_mentions: "is_sensitive p \<Longrightarrow> mentions_sensitive_token p"
  unfolding is_sensitive_iff mentions_sensitive_token_def using lower_tokens by metis

lemma detect_iff:
  "detect_sensitive_field_changes d \<noteq> [] \<longleftrightarrow>
   (\<exists>p \<in> set (scanned_paths d). \<exists>tok \<in> set LOWER_CASE_TOKENS. py_in tok (lower p))"
  by (auto simp: detect_sensitive_field_changes_def scanned_paths_def filter_empty_conv
      is_sensitive_iff)

lemma report_paths_subset: "set (report_paths d key) \<subseteq> set (diff_paths d)"
proof (cases "map_of d key")
  case None
  then show ?thesis by (simp add: report_paths_def)
next
  case (Some r)
  then have "(key, r) \<in> set d" by (rule map_of_SomeD)
  then have "set (paths r) \<subseteq> set (diff_paths d)" by (force simp: diff_paths_def)
  with Some show ?thesis by (simp add: report_paths_def)
qed

lemma detect_empty:
  assumes "\<forall>p \<in> set (diff_paths d). \<not> mentions_sensitive_token p"
  shows "detect_sensitive_field_changes d = []"
proof -
  have "\<not> is_sensitive p" if "p \<in> set (report_paths d key)" for p key
    using that assms report_paths_subset [of d key] is_sensitive_mentions by blast
  then show ?thesis by (simp add: detect_sensitive_field_changes_def filter_empty_conv)
qed

text \<open>
  C4 (amended). The procedure decides on the statuses first: HIGH for a baseline status
  in {401, 403, 404} with a test status in {200, 201, 204}, then MEDIUM for the baseline
  status 400 with such a test status, whatever the diff. Only then does it look at the
  diff: HIGH when a path listed under \<open>dictionary_item_added\<close>,
  \<open>dictionary_item_removed\<close> or \<open>values_changed\<close> contains, once the path is in lower
  case, one of the tokens \<open>owner_id\<close>, \<open>user_id\<close>, \<open>email\<close>, \<open>role\<close>, \<open>roles\<close>,
  \<open>is_admin\<close>, \<open>permissions\<close>, \<open>access_level\<close>. For a non-empty diff none of whose
  paths mentions a sensitive-field token in any letter case: with both statuses 200, and
  no key \<open>old_value\<close> at the top of the diff, HIGH for an IDOR test and MEDIUM for any
  other; with other statuses, not HIGH. Without a diff, LOW.
\<close>

theorem C4_severity_order:
  fixes b t :: int
  defines "by_status \<equiv> b \<in> {400, 401, 403, 404} \<and> t \<in> {200, 201, 204}"
  shows
    "(b \<in> {401, 403, 404} \<and> t \<in> {200, 201, 204}
        \<longrightarrow> calculate_severity b t diff ty = HIGH)
   \<and> (b = 400 \<and> t \<in> {200, 201, 204}
        \<longrightarrow> calculate_severity b t diff ty = MEDIUM)
   \<and> (\<not> by_status
        \<and> (\<exists>p \<in> set (scanned_paths d). \<exists>tok \<in> set LOWER_CASE_TOKENS. py_in tok (lower p))
        \<longrightarrow> calculate_severity b t (Some d) ty = HIGH)
   \<and> (\<not> by_status \<and> d \<noteq> [] \<and> map_of d ''old_value'' = None
        \<and> (\<forall>p \<in> set (diff_paths d). \<not> mentions_sensitive_token p) \<and> b = 200 \<and> t = 200
        \<longrightarrow> calculate_severity b t (Some d) ty = (if ty = ''IDOR'' then HIGH else MEDIUM))
   \<and> (\<not> by_status \<and> d \<noteq> []
        \<and> (\<forall>p \<in> set (diff_paths d). \<not> mentions_sensitive_token p) \<and> \<not> (b = 200 \<and> t = 200)
        \<longrightarrow> calculate_severity b t (Some d) ty \<noteq> HIGH)
   \<and> (\<not> by_status
        \<longrightarrow> calculate_severity b t None ty = LOW \<and> calculate_severity b t (Some []) ty = LOW)"
proof (intro conjI)
  show "b \<in> {401, 403, 404} \<and> t \<in> {200, 201, 204} \<longrightarrow> calculate_severity b t diff ty = HIGH"
    by (auto simp: calculate_severity_def status_change_high_iff)
  show "b = 400 \<and> t \<in> {200, 201, 204} \<longrightarrow> calculate_severity b t diff ty = MEDIUM"
    by (auto simp: calculate_severity_def status_change_high_iff status_change_medium_iff)
  show "\<not> by_status
        \<and> (\<exists>p \<in> set (scanned_paths d). \<exists>tok \<in> set LOWER_CASE_TOKENS. py_in tok (lower p))
        \<longrightarrow> calculate_severity b t (Some d) ty = HIGH"
  proof
    assume a: "\<not> by_status
        \<and> (\<exists>p \<in> set (scanned_paths d). \<exists>tok \<in> set LOWER_CASE_TOKENS. py_in tok (lower p))"
    then have det: "detect_sensitive_field_changes d \<noteq> []" by (simp add: detect_iff)
    then have "d \<noteq> []" by (auto simp: detect_sensitive_field_changes_def report_paths_def)
    with a det show "calculate_severity b t (Some d) ty = HIGH"
      unfolding by_status_def
      by (simp add: calculate_severity_def status_change_high_iff status_change_medium_iff
          truthy_diff_def) blast
  qed
  show "\<not> by_status \<and> d \<noteq> [] \<and> map_of d ''old_value'' = None
        \<and> (\<forall>p \<in> set (diff_paths d). \<not> mentions_sensitive_token p) \<and> b = 200 \<and> t = 200
        \<longrightarrow> calculate_severity b t (Some d) ty = (if ty = ''IDOR'' then HIGH else MEDIUM)"
  proof
    assume a: "\<not> by_status \<and> d \<noteq> [] \<and> map_of d ''old_value'' = None
        \<and> (\<forall>p \<in> set (diff_paths d). \<not> mentions_sensitive_token p) \<and> b = 200 \<and> t = 200"
    then have "detect_sensitive_field_changes d = []" "\<not> length_rule d"
      using detect_empty length_rule_dead by blast+
    with a show "calculate_severity b t (Some d) ty = (if ty = ''IDOR'' then HIGH else MEDIUM)"
      by (simp add: calculate_severity_def status_change_high_iff status_change_medium_iff
          truthy_diff_def)
  qed
  show "\<not> by_status \<and> d \<noteq> []
        \<and> (\<forall>p \<in> set (diff_paths d). \<not> mentions_sensitive_token p) \<and> \<not> (b = 200 \<and> t = 200)
        \<longrightarrow> calculate_severity b t (Some d) ty \<noteq> HIGH"
  proof
    assume a: "\<not> by_status \<and> d \<noteq> []
        \<and> (\<forall>p \<in> set (diff_paths d). \<not> mentions_sensitive_token p) \<and> \<not> (b = 200 \<and> t = 200)"
    then have "detect_sensitive_field_changes d = []" using detect_empty by blast
    with a show "calculate_severity b t (Some d) ty \<noteq> HIGH"
      unfolding by_status_def
      by (auto simp: calculate_severity_def status_change_high_iff status_change_medium_iff
          truthy_diff_def)
  qed
  show "\<not> by_status
        \<longrightarrow> calculate_severity b t None ty = LOW \<and> calculate_severity b t (Some []) ty = LOW"
    unfolding by_status_def
    by (auto simp: calculate_severity_def status_change_high_iff status_change_medium_iff
        truthy_diff_def)
qed


lemma role_diff_scanned:
  "\<exists>p \<in> set (scanned_paths [(''values_changed'', \<lparr>paths = [''root['role']''], rendered = []\<rparr>)]).
     \<exists>tok \<in> set LOWER_CASE_TOKENS. py_in tok (lower p)"
  using py_in_role by (simp add: scanned_paths_def report_paths_def LOWER_CASE_TOKENS_def)

lemma body_path_mentions_no_token: "\<not> mentions_sensitive_token ''root['body']''"
  by code_simp

lemma body_level_diff_paths: "diff_paths (body_level_diff x y) = [''root['body']'']"
  by (simp add: diff_paths_def body_level_diff_def)

theorem C4_severity_order_witness:
  "calculate_severity 403 200 None ''IDOR'' = HIGH
   \<and> calculate_severity 400 200
        (Some [(''values_changed'', \<lparr>paths = [''root['role']''], rendered = []\<rparr>)])
        ''IDOR'' = MEDIUM
   \<and> calculate_severity 200 500
        (Some [(''values_changed'', \<lparr>paths = [''root['role']''], rendered = []\<rparr>)])
        ''AUTH_BYPASS'' = HIGH
   \<and> calculate_severity 200 200 (Some (body_level_diff ''a'' ''b'')) ''IDOR'' = HIGH
   \<and> calculate_severity 200 200 (Some (body_level_diff ''a'' ''b'')) ''AUTH_BYPASS'' = MEDIUM
   \<and> calculate_severity 200 500 (Some (body_level_diff ''a'' ''b'')) ''IDOR'' \<noteq> HIGH
   \<and> calculate_severity 200 500 None ''IDOR'' = LOW
   \<and> calculate_severity 200 500 (Some []) ''IDOR'' = LOW"
proof -
  let ?role = "[(''values_changed'', \<lparr>paths = [''root['role']''], rendered = []\<rparr>)]"
  let ?body = "body_level_diff ''a'' ''b''"
  have 1: "calculate_severity 403 200 None ''IDOR'' = HIGH"
    using C4_severity_order [where b = 403 and t = 200 and diff = None and ty = "''IDOR''"] by simp
  have 2: "calculate_severity 400 200 (Some ?role) ''IDOR'' = MEDIUM"
    using C4_severity_order [where b = 400 and t = 200 and diff = "Some ?role" and ty = "''IDOR''"]
    by simp
  have 3: "calculate_severity 200 500 (Some ?role) ''AUTH_BYPASS'' = HIGH"
    using C4_severity_order [where b = 200 and t = 500 and d = ?role and ty = "''AUTH_BYPASS''"]
      role_diff_scanned
    by simp
  have body: "?body \<noteq> []" "map_of ?body ''old_value'' = None"
    "\<forall>p \<in> set (diff_paths ?body). \<not> mentions_sensitive_token p"
    by (simp_all add: body_level_diff_no_old_value body_level_diff_paths
        body_path_mentions_no_token) (simp add: body_level_diff_def)
  have 4: "calculate_severity 200 200 (Some ?body) ''IDOR'' = HIGH"
    using C4_severity_order [where b = 200 and t = 200 and d = ?body and ty = "''IDOR''"] body
    by simp
  have 5: "calculate_severity 200 200 (Some ?body) ''AUTH_BYPASS'' = MEDIUM"
    using C4_severity_order [where b = 200 and t = 200 and d = ?body and ty = "''AUTH_BYPASS''"] body
    by simp
  have 6: "calculate_severity 200 500 (Some ?body) ''IDOR'' \<noteq> HIGH"
    using C4_severity_order [where b = 200 and t = 500 and d = ?body and ty = "''IDOR''"] body
    by simp
  have 7: "calculate_severity 200 500 None ''IDOR'' = LOW
      \<and> calculate_severity 200 500 (Some []) ''IDOR'' = LOW"
    using C4_severity_order [where b = 200 and t = 500 and ty = "''IDOR''"] by simp
  from 1 2 3 4 5 6 7 show ?thesis by blast
qed

text \<open>
  The tokens are compared as they are written with the path in lower case, so a token
  with a capital letter matches no path: a changed value at \<open>root['userId']\<close> is not
  detected.
\<close>

lemma camel_case_token_not_detected:
  "py_in ''userId'' ''root['userId']''
   \<and> detect_sensitive_field_changes
        [(''values_changed'', \<lparr>paths = [''root['userId']''], rendered = []\<rparr>)] = []
   \<and> calculate_severity 200 500
        (Some [(''values_changed'', \<lparr>paths = [''root['userId']''], rendered = []\<rparr>)])
        ''AUTH_BYPASS'' = LOW"
  by code_simp

text \<open>
  C8 (evaluation at the failing input). The baseline body has 10 characters and the test
  body 1, a length delta of 90 per cent of the baseline length; the comparison yields the
  body-level diff, the statuses 200 and 500 match no status rule and no path is
  sensitive. The claim gives MEDIUM; the code gives LOW, since its length check reads
  keys of the diff that are absent.
\<close>

theorem C8_length_delta_ignored:
  "calculate_severity 200 500 (Some (body_level_diff ''aaaaaaaaaa'' ''b'')) ''AUTH_BYPASS'' = LOW
   \<and> 10 * \<bar>int (length ''b'') - int (length ''aaaaaaaaaa'')\<bar> > 3 * int (length ''aaaaaaaaaa'')"
proof -
  have "\<not> length_rule (body_level_diff ''aaaaaaaaaa'' ''b'')"
    by (rule length_rule_dead [OF body_level_diff_no_old_value])
  then show ?thesis
    by (simp add: calculate_severity_def status_change_high_iff status_change_medium_iff
        body_level_diff_not_sensitive)
qed

text \<open>
  The same for every diff that lacks the key \<open>old_value\<close>: the severity is the one the
  procedure gives without its length check.
\<close>

lemma calculate_severity_without_length_rule:
  assumes "map_of d ''old_value'' = None"
  shows "calculate_severity b t (Some d) ty =
     (if status_change STATUS_CHANGE_HIGH b t then HIGH
      else if status_change STATUS_CHANGE_MEDIUM b t then MEDIUM
      else if d \<noteq> [] \<and> detect_sensitive_field_changes d \<noteq> [] then HIGH
      else if b = 200 \<and> t = 200 \<and> d \<noteq> [] then (if ty = ''IDOR'' then HIGH else MEDIUM)
      else LOW)"
  using length_rule_dead [OF assms] by (simp add: calculate_severity_def truthy_diff_def)

section \<open>Properties of the captured body\<close>

lemma capture_body_unmodified:
  "length s \<le> 20000 \<Longrightarrow> capture_body (Some s) = s"
  by (simp add: capture_body_def)

lemma capture_body_truncated:
  "length s > 20000 \<Longrightarrow> capture_body (Some s) = take 20000 s @ [CHR 0x0A] @ ''... (truncated)''"
  by (simp add: capture_body_def)

text \<open>
  C9 (evaluation at the failing input). A response text of 20001 characters is within
  the 20 KiB limit of the claim (\<open>MAX_BODY_SIZE\<close> of the settings), so the claim stores it
  unmodified; the code cuts it to 20000 characters and appends the marker.
\<close>

theorem C9_truncates_below_max_body_size:
  "length (replicate 20001 CHR ''a'') \<le> MAX_BODY_SIZE
   \<and> capture_body (Some (replicate 20001 CHR ''a''))
       = replicate 20000 CHR ''a'' @ [CHR 0x0A] @ ''... (truncated)''
   \<and> capture_body (Some (replicate 20001 CHR ''a'')) \<noteq> replicate 20001 CHR ''a''"
proof -
  have "capture_body (Some (replicate 20001 CHR ''a''))
        = replicate 20000 CHR ''a'' @ [CHR 0x0A] @ ''... (truncated)''"
    by (simp add: capture_body_def)
  moreover from this
  have "length (capture_body (Some (replicate 20001 CHR ''a''))) = 20016"
    by simp
  then have "capture_body (Some (replicate 20001 CHR ''a'')) \<noteq> replicate 20001 CHR ''a''"
    by (metis length_replicate numeral_eq_iff semiring_norm(89) of_nat_numeral of_nat_eq_iff)
  ultimately show ?thesis by (simp add: MAX_BODY_SIZE_def)
qed

section \<open>Properties of the test generator\<close>

lemma choice_in_set: "xs \<noteq> [] \<Longrightarrow> choice rng k xs \<in> set xs"
  by (simp add: choice_def)

lemma choice_singleton: "choice rng k [x] = x"
  by (simp add: choice_def)

lemma idor_iteration_methods:
  "idor_iteration rng ep pools i k = (Some t, k') \<Longrightarrow>
   tc_method t = ep_method ep \<and> test_type t = ''IDOR'' \<and> endpoint t = templated_path ep"
  by (auto simp: idor_iteration_def Let_def split: prod.splits option.splits if_splits)

lemma idor_loop_methods:
  "idor_loop rng ep pools is k = (ts, k') \<Longrightarrow> t \<in> set ts \<Longrightarrow>
   tc_method t = ep_method ep \<and> test_type t = ''IDOR'' \<and> endpoint t = templated_path ep"
proof (induction "is" arbitrary: k ts k')
  case Nil
  then show ?case by simp
next
  case (Cons i "is")
  obtain r k1 where it: "idor_iteration rng ep pools i k = (r, k1)"
    by (cases "idor_iteration rng ep pools i k")
  obtain ts1 k2 where lp: "idor_loop rng ep pools is k1 = (ts1, k2)"
    by (cases "idor_loop rng ep pools is k1")
  show ?case
  proof (cases r)
    case None
    with Cons.prems it lp have "ts = ts1" by simp
    with Cons.IH [OF lp] Cons.prems show ?thesis by simp
  next
    case (Some t1)
    with Cons.prems it lp have "ts = t1 # ts1" by simp
    with Cons.prems have "t = t1 \<or> t \<in> set ts1" by simp
    then show ?thesis
      using idor_iteration_methods [OF it [unfolded Some]] Cons.IH [OF lp] by blast
  qed
qed

lemma generate_idor_tests_methods:
  assumes "t \<in> set (fst (generate_idor_tests rng k ep eps count))"
  shows "tc_method t = ep_method ep \<and> test_type t = ''IDOR'' \<and> endpoint t = templated_path ep"
proof (cases "id_pools ep = []")
  case True
  with assms show ?thesis by (simp add: generate_idor_tests_def)
next
  case False
  obtain ts k' where lp: "idor_loop rng ep (collect_all_id_pools eps)
      [0 ..< min count (length (id_pools ep) * 5)] k = (ts, k')"
    by (cases "idor_loop rng ep (collect_all_id_pools eps)
      [0 ..< min count (length (id_pools ep) * 5)] k")
  with assms False have "t \<in> set (take count ts)" by (simp add: generate_idor_tests_def)
  then have "t \<in> set ts" by (rule in_set_takeD)
  with idor_loop_methods [OF lp] show ?thesis by blast
qed

lemma method_confusion_no_delete:
  "t \<in> set (generate_method_confusion_tests ep False count) \<Longrightarrow> tc_method t \<noteq> ''DELETE''"
  by (auto simp: generate_method_confusion_tests_def alternative_methods_def
      DESTRUCTIVE_METHODS_def Let_def dest!: in_set_takeD)

lemma mass_assignment_methods:
  "t \<in> set (generate_mass_assignment_tests ep count) \<Longrightarrow> tc_method t = ep_method ep \<and> tc_method t \<in> {''POST'', ''PUT'', ''PATCH''}"
  by (auto simp: generate_mass_assignment_tests_def mass_assignment_test_def Let_def
      split: if_splits)

lemma auth_bypass_methods:
  "t \<in> set (generate_auth_bypass_tests ep count) \<Longrightarrow> tc_method t = ep_method ep \<and> test_type t = ''AUTH_BYPASS'' \<and> endpoint t = templated_path ep"
  by (auto simp: generate_auth_bypass_tests_def)

lemma endpoint_tests_delete:
  assumes "t \<in> set (fst (endpoint_tests rng k eps max_tests False ep))" "tc_method t = ''DELETE''"
  shows "ep_method ep = ''DELETE'' \<and> test_type t \<in> {''IDOR'', ''AUTH_BYPASS''} \<and> endpoint t = templated_path ep"
proof -
  obtain idor k' where g: "generate_idor_tests rng k ep eps IDOR_TEST_COUNT = (idor, k')"
    by (cases "generate_idor_tests rng k ep eps IDOR_TEST_COUNT")
  from assms(1) g have "t \<in> set idor \<or> t \<in> set (generate_auth_bypass_tests ep AUTH_BYPASS_TEST_COUNT)
      \<or> t \<in> set (generate_method_confusion_tests ep False METHOD_CONFUSION_TEST_COUNT)
      \<or> t \<in> set (generate_mass_assignment_tests ep MASS_ASSIGNMENT_TEST_COUNT)"
    by (auto simp: endpoint_tests_def dest!: in_set_takeD)
  then show ?thesis
  proof (elim disjE)
    assume "t \<in> set idor"
    then have "t \<in> set (fst (generate_idor_tests rng k ep eps IDOR_TEST_COUNT))" using g by simp
    from generate_idor_tests_methods [OF this] assms(2) show ?thesis by simp
  next
    assume "t \<in> set (generate_auth_bypass_tests ep AUTH_BYPASS_TEST_COUNT)"
    from auth_bypass_methods [OF this] assms(2) show ?thesis by simp
  next
    assume "t \<in> set (generate_method_confusion_tests ep False METHOD_CONFUSION_TEST_COUNT)"
    from method_confusion_no_delete [OF this] assms(2) show ?thesis by simp
  next
    assume "t \<in> set (generate_mass_assignment_tests ep MASS_ASSIGNMENT_TEST_COUNT)"
    from mass_assignment_methods [OF this] assms(2) show ?thesis by simp
  qed
qed

lemma generate_tests_from_delete:
  assumes "t \<in> set (generate_tests_from rng k eps max_tests False todo)" "tc_method t = ''DELETE''"
  shows "\<exists>ep \<in> set todo. ep_method ep = ''DELETE'' \<and> endpoint t = templated_path ep
          \<and> test_type t \<in> {''IDOR'', ''AUTH_BYPASS''}"
  using assms
proof (induction todo arbitrary: k)
  case Nil
  then show ?case by simp
next
  case (Cons ep todo)
  obtain ts k' where e: "endpoint_tests rng k eps max_tests False ep = (ts, k')"
    by (cases "endpoint_tests rng k eps max_tests False ep")
  with Cons.prems(1) have "t \<in> set ts \<or> t \<in> set (generate_tests_from rng k' eps max_tests False todo)"
    by simp
  then show ?case
  proof
    assume "t \<in> set ts"
    then have "t \<in> set (fst (endpoint_tests rng k eps max_tests False ep))" using e by simp
    from endpoint_tests_delete [OF this Cons.prems(2)] show ?thesis by simp
  next
    assume "t \<in> set (generate_tests_from rng k' eps max_tests False todo)"
    from Cons.IH [OF this Cons.prems(2)] show ?thesis by auto
  qed
qed

text \<open>
  With the flag off, a generated test with method \<open>DELETE\<close> is an IDOR or AUTH\_BYPASS
  test of an endpoint whose own method is \<open>DELETE\<close>.
\<close>

lemma generate_tests_delete:
  assumes "t \<in> set (generate_tests rng eps max_tests False)" "tc_method t = ''DELETE''"
  shows "\<exists>ep \<in> set eps. ep_method ep = ''DELETE'' \<and> endpoint t = templated_path ep
          \<and> test_type t \<in> {''IDOR'', ''AUTH_BYPASS''}"
  using generate_tests_from_delete [OF assms(1) [unfolded generate_tests_def] assms(2)] .

text \<open>
  C3 (evaluation at the failing input). For a captured \<open>DELETE\<close> endpoint and
  \<open>allow_destructive = False\<close>, the five AUTH\_BYPASS tests are sent with the method
  \<open>DELETE\<close>: only the METHOD\_CONFUSION generator consults the flag.
\<close>

theorem C3_delete_endpoint_yields_delete_tests:
  "map (\<lambda>t. (test_type t, tc_method t))
     (generate_tests rng
        [\<lparr>ep_method = ''DELETE'', templated_path = ''/api/items/{id:int}'', sample_bodies = [],
          id_pools = []\<rparr>]
        DEFAULT_MAX_TESTS_PER_ENDPOINT False)
   = [(''AUTH_BYPASS'', ''DELETE''), (''AUTH_BYPASS'', ''DELETE''), (''AUTH_BYPASS'', ''DELETE''),
      (''AUTH_BYPASS'', ''DELETE''), (''AUTH_BYPASS'', ''DELETE''),
      (''METHOD_CONFUSION'', ''GET''), (''METHOD_CONFUSION'', ''POST''),
      (''METHOD_CONFUSION'', ''PUT''), (''METHOD_CONFUSION'', ''OPTIONS''),
      (''METHOD_CONFUSION'', ''HEAD''), (''METHOD_CONFUSION'', ''PATCH'')]"
  by (simp add: generate_tests_def endpoint_tests_def generate_idor_tests_def
      generate_auth_bypass_tests_def generate_method_confusion_tests_def
      alternative_methods_def generate_mass_assignment_tests_def HTTP_METHODS_def
      DESTRUCTIVE_METHODS_def AUTH_BYPASS_TEST_COUNT_def METHOD_CONFUSION_TEST_COUNT_def
      DEFAULT_MAX_TESTS_PER_ENDPOINT_def upt_rec)

section \<open>Properties of the IDOR generator\<close>

lemma idor_url_users_100: "idor_url ''/users/{id:int}'' (IdInt 100) = ''/users/100''"
  by code_simp

lemma collect_distinct_names:
  "n1 \<noteq> n2 \<Longrightarrow>
   collect_all_id_pools [users_endpoint n1, projects_endpoint n2]
     = [(n1, [IdInt 1, IdInt 2]), (n2, [IdInt 100])]
   \<and> collect_all_id_pools [projects_endpoint n2, users_endpoint n1]
     = [(n2, [IdInt 100]), (n1, [IdInt 1, IdInt 2])]"
  by (auto simp: collect_all_id_pools_def users_endpoint_def projects_endpoint_def pool_ids_def)

lemma collect_same_name:
  "collect_all_id_pools [users_endpoint n, projects_endpoint n]
     = [(n, [IdInt 1, IdInt 2, IdInt 100])]"
  by (simp add: collect_all_id_pools_def users_endpoint_def projects_endpoint_def pool_ids_def)

lemma original_id_cases:
  "choice rng k [IdInt 1, IdInt 2] = IdInt 1 \<or> choice rng k [IdInt 1, IdInt 2] = IdInt 2"
  using choice_in_set [of "[IdInt 1, IdInt 2]" rng k] by auto

lemma find_target_distinct_names:
  assumes "n1 \<noteq> n2" "orig = IdInt 1 \<or> orig = IdInt 2"
    "pools = [(n1, [IdInt 1, IdInt 2]), (n2, [IdInt 100])] \<or> pools = [(n2, [IdInt 100]), (n1, [IdInt 1, IdInt 2])]"
  shows "find_target rng k n1 orig pools = Some (n2, IdInt 100)"
  using assms by (auto simp: choice_singleton)

lemma idor_iteration_distinct_names:
  assumes "n1 \<noteq> n2"
    "pools = [(n1, [IdInt 1, IdInt 2]), (n2, [IdInt 100])] \<or> pools = [(n2, [IdInt 100]), (n1, [IdInt 1, IdInt 2])]"
  shows "\<exists>t. idor_iteration rng (users_endpoint n1) pools i k = (Some t, k + 3)
             \<and> url t = ''/users/100''"
proof -
  have ft: "find_target rng a n1 (choice rng b [IdInt 1, IdInt 2]) pools
        = Some (n2, IdInt 100)" for a b
    by (rule find_target_distinct_names [OF assms(1) original_id_cases assms(2)])
  show ?thesis
    by (simp add: idor_iteration_def users_endpoint_def choice_singleton pool_ids_def ft
        idor_url_users_100 Let_def)
qed

lemma idor_loop_distinct_names:
  assumes "n1 \<noteq> n2"
    "pools = [(n1, [IdInt 1, IdInt 2]), (n2, [IdInt 100])] \<or> pools = [(n2, [IdInt 100]), (n1, [IdInt 1, IdInt 2])]"
  shows "map url (fst (idor_loop rng (users_endpoint n1) pools is k))
           = replicate (length is) ''/users/100''"
proof (induction "is" arbitrary: k)
  case Nil
  then show ?case by simp
next
  case (Cons i "is")
  from idor_iteration_distinct_names [OF assms] obtain t where
    t: "idor_iteration rng (users_endpoint n1) pools i k = (Some t, k + 3)" "url t = ''/users/100''"
    by blast
  obtain ts k' where lp: "idor_loop rng (users_endpoint n1) pools is (k + 3) = (ts, k')"
    by (cases "idor_loop rng (users_endpoint n1) pools is (k + 3)")
  with Cons.IH [of "k + 3"] have "map url ts = replicate (length is) ''/users/100''" by simp
  with t lp show ?case by simp
qed

lemma generate_idor_tests_distinct_names:
  assumes "n1 \<noteq> n2"
    "collect_all_id_pools eps = [(n1, [IdInt 1, IdInt 2]), (n2, [IdInt 100])]
     \<or> collect_all_id_pools eps = [(n2, [IdInt 100]), (n1, [IdInt 1, IdInt 2])]"
  shows "map url (fst (generate_idor_tests rng k (users_endpoint n1) eps IDOR_TEST_COUNT))
           = replicate 5 ''/users/100''"
proof -
  have np: "id_pools (users_endpoint n1) \<noteq> []" "length (id_pools (users_endpoint n1)) = 1"
    by (simp_all add: users_endpoint_def)
  obtain ts k' where lp: "idor_loop rng (users_endpoint n1) (collect_all_id_pools eps) [0 ..< 5] k
      = (ts, k')"
    by (cases "idor_loop rng (users_endpoint n1) (collect_all_id_pools eps) [0 ..< 5] k")
  from idor_loop_distinct_names [OF assms, of rng "[0 ..< 5]" k] lp
  have ts: "map url ts = replicate 5 ''/users/100''" by simp
  then have "length ts = 5" by (metis length_map length_replicate)
  with np lp ts show ?thesis
    by (simp add: generate_idor_tests_def IDOR_TEST_COUNT_def)
qed

text \<open>
  C2 (amended). When the endpoint set consists of the two endpoints and their pools carry
  different names, every run of the IDOR generator for the users endpoint, whatever the
  random draws, emits five tests, each with the URL \<open>/users/100\<close>.
\<close>

theorem C2_cross_pool_idor:
  assumes "n1 \<noteq> n2"
  shows "map url (fst (generate_idor_tests rng k (users_endpoint n1)
                   [users_endpoint n1, projects_endpoint n2] IDOR_TEST_COUNT))
           = replicate 5 ''/users/100''
       \<and> map url (fst (generate_idor_tests rng k (users_endpoint n1)
                   [projects_endpoint n2, users_endpoint n1] IDOR_TEST_COUNT))
           = replicate 5 ''/users/100''"
  using collect_distinct_names [OF assms] generate_idor_tests_distinct_names [OF assms]
  by simp

lemma find_target_same_name: "find_target rng k n orig [(n, ids)] = None"
  by simp

lemma idor_iteration_same_name:
  "fst (idor_iteration rng (users_endpoint n) [(n, ids)] i k) = None"
  by (simp add: idor_iteration_def users_endpoint_def choice_singleton pool_ids_def Let_def)

lemma idor_loop_same_name:
  "fst (idor_loop rng (users_endpoint n) [(n, ids)] is k) = []"
proof (induction "is" arbitrary: k)
  case Nil
  then show ?case by simp
next
  case (Cons i "is")
  obtain r k1 where it: "idor_iteration rng (users_endpoint n) [(n, ids)] i k = (r, k1)"
    by (cases "idor_iteration rng (users_endpoint n) [(n, ids)] i k")
  with idor_iteration_same_name [of rng n ids i k] have "r = None" by simp
  with it Cons.IH [of k1] show ?case by simp
qed

text \<open>
  C2 (counterexample). When both pools carry the same name, here the name \<open>param_2\<close>
  of a parameter at path segment 2, the union holds no pool of another name and the
  generator emits no test for the users endpoint, whatever the random draws.
\<close>

theorem C2_same_pool_name_no_tests:
  "\<forall>rng k. fst (generate_idor_tests rng k (users_endpoint ''param_2'')
             [users_endpoint ''param_2'', projects_endpoint ''param_2''] IDOR_TEST_COUNT) = []"
proof (intro allI)
  fix rng k
  let ?pools = "[(''param_2'', [IdInt 1, IdInt 2, IdInt 100])]"
  let ?is = "[0 ..< min IDOR_TEST_COUNT (length (id_pools (users_endpoint ''param_2'')) * 5)]"
  obtain ts k' where lp: "idor_loop rng (users_endpoint ''param_2'') ?pools ?is k = (ts, k')"
    by (cases "idor_loop rng (users_endpoint ''param_2'') ?pools ?is k")
  with idor_loop_same_name [of rng "''param_2''" "[IdInt 1, IdInt 2, IdInt 100]" ?is k] have "ts = []" by simp
  with lp show "fst (generate_idor_tests rng k (users_endpoint ''param_2'')
             [users_endpoint ''param_2'', projects_endpoint ''param_2''] IDOR_TEST_COUNT) = []"
    by (simp add: generate_idor_tests_def collect_same_name)
qed

theorem C2_cross_pool_idor_witness:
  "''user_id'' \<noteq> ''project_id''
   \<and> (\<forall>rng k.
        map url (fst (generate_idor_tests rng k (users_endpoint ''user_id'')
                   [users_endpoint ''user_id'', projects_endpoint ''project_id''] IDOR_TEST_COUNT))
          = replicate 5 ''/users/100''
        \<and> map url (fst (generate_idor_tests rng k (users_endpoint ''user_id'')
                   [projects_endpoint ''project_id'', users_endpoint ''user_id''] IDOR_TEST_COUNT))
          = replicate 5 ''/users/100'')"
proof -
  have ne: "''user_id'' \<noteq> ''project_id''" by simp
  from C2_cross_pool_idor [OF ne] show ?thesis by simp
qed

section \<open>Properties of the endpoint modeler\<close>

lemma dict_extend_keys: "fst ` set (dict_extend d k vs) = insert k (fst ` set d)"
  by (induction d k vs rule: dict_extend.induct) auto

lemma dict_extend_distinct: "distinct (map fst d) \<Longrightarrow> distinct (map fst (dict_extend d k vs))"
  by (induction d k vs rule: dict_extend.induct) (auto simp: dict_extend_keys)

lemma group_requests_from_distinct:
  "distinct (map fst acc) \<Longrightarrow> group_requests_from acc rs = Inr groups \<Longrightarrow>
   distinct (map fst groups)"
proof (induction rs arbitrary: acc)
  case Nil
  then show ?case by simp
next
  case (Cons req rs)
  show ?case
  proof (cases "req_response req")
    case None
    with Cons show ?thesis by simp
  next
    case (Some r)
    with Cons.prems(2) obtain p q where pq: "normalize_url (req_url req) = Inr (p, q)"
      and rest: "group_requests_from (dict_extend acc (req_method req, p) [req]) rs = Inr groups"
      by (auto split: sum.splits)
    from Cons.IH [OF dict_extend_distinct [OF Cons.prems(1)] rest] show ?thesis .
  qed
qed

text \<open>The keys of the groups, pairs of method and concrete path, are pairwise distinct.\<close>

lemma group_requests_distinct:
  "group_requests requests_data = Inr groups \<Longrightarrow> distinct (map fst groups)"
  unfolding group_requests_def by (rule group_requests_from_distinct [of "[]"]) simp_all

lemma body_step_silent: "\<not> contributes loads req \<Longrightarrow> body_step loads acc req = Inr acc"
  by (auto simp: contributes_def body_step_def split: option.splits)

lemma body_analysis_append:
  "body_analysis loads acc (xs @ ys) =
     (case body_analysis loads acc xs of Inl e \<Rightarrow> Inl e | Inr acc' \<Rightarrow> body_analysis loads acc' ys)"
  by (induction xs arbitrary: acc) (auto split: sum.splits)

lemma body_analysis_drop_silent:
  "\<not> contributes loads req \<Longrightarrow>
   body_analysis loads acc (xs @ req # ys) = body_analysis loads acc (xs @ ys)"
  by (simp add: body_analysis_append body_step_silent split: sum.splits)

lemma body_step_samples:
  "body_step loads acc req = Inr acc' \<Longrightarrow> fst acc' = fst acc @ body_contribution loads req"
  by (auto simp: body_step_def body_contribution_def split: option.splits json.splits if_splits)

lemma body_analysis_samples:
  "body_analysis loads acc reqs = Inr acc' \<Longrightarrow>
   fst acc' = fst acc @ concat (map (body_contribution loads) reqs)"
proof (induction reqs arbitrary: acc)
  case Nil
  then show ?case by simp
next
  case (Cons req reqs)
  then obtain acc1 where s: "body_step loads acc req = Inr acc1"
    and r: "body_analysis loads acc1 reqs = Inr acc'"
    by (auto split: sum.splits)
  from body_step_samples [OF s] Cons.IH [OF r] show ?case by simp
qed

lemma set_update_keys: "fst ` set (set_update d k vs) = insert k (fst ` set d)"
  by (induction d k vs rule: set_update.induct) auto

lemma body_params_fold_keys:
  "fst ` set (foldl (\<lambda>bp (key, v). if is_scalar v then set_update bp key [py_str v] else bp) bp d)
     \<subseteq> fst ` set bp \<union> fst ` set d"
proof (induction d arbitrary: bp)
  case Nil
  then show ?case by simp
next
  case (Cons kv d)
  obtain key v where kv: "kv = (key, v)" by (cases kv)
  show ?case
    using Cons.IH [of "if is_scalar v then set_update bp key [py_str v] else bp"]
    by (auto simp: kv set_update_keys split: if_splits)
qed

lemma body_step_keys:
  assumes "body_step loads acc req = Inr acc'"
  shows "fst ` set (snd acc') \<subseteq> fst ` set (snd acc) \<union> (\<Union>d \<in> set (body_contribution loads req). fst ` set d)"
proof (cases "contributes loads req")
  case False
  with assms show ?thesis by (auto simp: body_step_silent)
next
  case True
  with assms obtain d where d: "extract_json_body loads (body_str req) = Some (JObj d)" "d \<noteq> []"
    by (auto simp: contributes_def body_step_def split: option.splits json.splits if_splits)
  with assms have "snd acc' = foldl (\<lambda>bp (key, v). if is_scalar v then set_update bp key [py_str v] else bp)
                        (snd acc) d"
    by (auto simp: body_step_def)
  moreover from d have "body_contribution loads req = [d]" by (simp add: body_contribution_def)
  ultimately show ?thesis using body_params_fold_keys [of "snd acc" d] by simp
qed

lemma body_analysis_keys:
  "body_analysis loads acc reqs = Inr acc' \<Longrightarrow>
   fst ` set (snd acc') \<subseteq> fst ` set (snd acc)
     \<union> (\<Union>d \<in> set (concat (map (body_contribution loads) reqs)). fst ` set d)"
proof (induction reqs arbitrary: acc)
  case Nil
  then show ?case by simp
next
  case (Cons req reqs)
  then obtain acc1 where s: "body_step loads acc req = Inr acc1"
    and r: "body_analysis loads acc1 reqs = Inr acc'"
    by (auto split: sum.splits)
  let ?keys = "\<lambda>rs. (\<Union>d \<in> set (concat (map (body_contribution loads) rs)). fst ` set d)"
  have A: "fst ` set (snd acc1) \<subseteq> fst ` set (snd acc) \<union> ?keys [req]"
    using body_step_keys [OF s] by simp
  have B: "fst ` set (snd acc') \<subseteq> fst ` set (snd acc1) \<union> ?keys reqs"
    by (rule Cons.IH [OF r])
  have C: "?keys (req # reqs) = ?keys [req] \<union> ?keys reqs" by simp
  have trans: "K1 \<subseteq> K0 \<union> R \<Longrightarrow> K' \<subseteq> K1 \<union> S \<Longrightarrow> K' \<subseteq> K0 \<union> (R \<union> S)"
    for K0 K1 K' R S :: "string set"
    by blast
  show ?case unfolding C by (rule trans [OF A B])
qed

lemma contribution_needs_request_or_response_json:
  "body_contribution loads req \<noteq> [] \<Longrightarrow> contributes loads req"
  by (auto simp: body_contribution_def contributes_def split: option.splits json.splits if_splits)

lemma set_foldl_set_add: "set (foldl set_add xs vs) = set xs \<union> set vs"
  by (induction vs arbitrary: xs) (auto simp: set_add_def)

text \<open>\<open>holds d k vs\<close>: the dictionary of sets has the values \<open>vs\<close> under the name \<open>k\<close>.\<close>

lemma set_update_same: "\<exists>ws. (k, ws) \<in> set (set_update d k vs) \<and> set vs \<subseteq> set ws"
  by (induction d k vs rule: set_update.induct) (auto simp: set_foldl_set_add)

lemma set_update_mono:
  "\<exists>ws. (k', ws) \<in> set d \<and> set vs' \<subseteq> set ws \<Longrightarrow>
   \<exists>ws. (k', ws) \<in> set (set_update d k vs) \<and> set vs' \<subseteq> set ws"
proof (induction d k vs rule: set_update.induct)
  case (1 k vs)
  then show ?case by simp
next
  case (2 k0 vs0 d k vs)
  from "2.prems" obtain ws where ws: "(k', ws) \<in> set ((k0, vs0) # d)" "set vs' \<subseteq> set ws"
    by blast
  show ?case
  proof (cases "k0 = k")
    case True
    show ?thesis
    proof (cases "(k', ws) = (k0, vs0)")
      case True
      with \<open>k0 = k\<close> ws(2) have "(k', foldl set_add vs0 vs) \<in> set (set_update ((k0, vs0) # d) k vs)"
        "set vs' \<subseteq> set (foldl set_add vs0 vs)"
        by (auto simp: set_foldl_set_add)
      then show ?thesis by blast
    next
      case False
      with ws \<open>k0 = k\<close> have "(k', ws) \<in> set (set_update ((k0, vs0) # d) k vs)" by auto
      with ws(2) show ?thesis by blast
    qed
  next
    case False
    show ?thesis
    proof (cases "(k', ws) = (k0, vs0)")
      case True
      with False ws(2) show ?thesis by auto
    next
      case False
      with ws have "\<exists>ws. (k', ws) \<in> set d \<and> set vs' \<subseteq> set ws" by auto
      from "2.IH" [OF \<open>k0 \<noteq> k\<close> this] \<open>k0 \<noteq> k\<close> show ?thesis by auto
    qed
  qed
qed

lemma query_fields_mono:
  "\<exists>ws. (k, ws) \<in> set qp \<and> set vs \<subseteq> set ws \<Longrightarrow>
   \<exists>ws. (k, ws) \<in> set (foldl (\<lambda>qp' (key, vals). set_update qp' key vals) qp kvs)
        \<and> set vs \<subseteq> set ws"
proof (induction kvs arbitrary: qp)
  case Nil
  then show ?case by simp
next
  case (Cons kv kvs)
  obtain key vals where kv: "kv = (key, vals)" by (cases kv)
  from Cons.IH [OF set_update_mono [OF Cons.prems, of key vals]] show ?case by (simp add: kv)
qed

lemma query_fields_add:
  "(k, vs) \<in> set kvs \<Longrightarrow>
   \<exists>ws. (k, ws) \<in> set (foldl (\<lambda>qp' (key, vals). set_update qp' key vals) qp kvs)
        \<and> set vs \<subseteq> set ws"
proof (induction kvs arbitrary: qp)
  case Nil
  then show ?case by simp
next
  case (Cons kv kvs)
  obtain key vals where kv: "kv = (key, vals)" by (cases kv)
  show ?case
  proof (cases "(k, vs) = kv")
    case True
    with kv have "key = k" "vals = vs" by simp_all
    with query_fields_mono [OF set_update_same [of k qp vs], of kvs] show ?thesis
      by (simp add: kv)
  next
    case False
    with Cons.prems have "(k, vs) \<in> set kvs" by simp
    from Cons.IH [OF this, of "set_update qp key vals"] show ?thesis by (simp add: kv)
  qed
qed

lemma query_loop_mono:
  "\<exists>ws. (k, ws) \<in> set qp \<and> set vs \<subseteq> set ws \<Longrightarrow>
   \<exists>ws. (k, ws) \<in> set (foldl (\<lambda>qp query.
              if query = [] then qp
              else foldl (\<lambda>qp' (key, vals). set_update qp' key vals) qp (qs_parser query))
            qp queries)
        \<and> set vs \<subseteq> set ws"
proof (induction queries arbitrary: qp)
  case Nil
  then show ?case by simp
next
  case (Cons q queries)
  show ?case
  proof (cases "q = []")
    case True
    with Cons.IH [OF Cons.prems] show ?thesis by simp
  next
    case False
    with Cons.IH [OF query_fields_mono [OF Cons.prems, of "qs_parser q"]] show ?thesis by simp
  qed
qed

lemma query_loop_add:
  "q \<in> set queries \<Longrightarrow> q \<noteq> [] \<Longrightarrow> (k, vs) \<in> set (qs_parser q) \<Longrightarrow>
   \<exists>ws. (k, ws) \<in> set (foldl (\<lambda>qp query.
              if query = [] then qp
              else foldl (\<lambda>qp' (key, vals). set_update qp' key vals) qp (qs_parser query))
            qp queries)
        \<and> set vs \<subseteq> set ws"
proof (induction queries arbitrary: qp)
  case Nil
  then show ?case by simp
next
  case (Cons q0 queries)
  show ?case
  proof (cases "q = q0")
    case True
    with Cons.prems query_loop_mono [OF query_fields_add [of k vs "qs_parser q" qp], of qs_parser queries]
    show ?thesis by simp
  next
    case False
    with Cons.prems have "q \<in> set queries" by simp
    from Cons.IH [OF this Cons.prems(2,3)] show ?thesis by simp
  qed
qed

text \<open>Every field of the query of an entry is among the query parameters.\<close>

lemma query_analysis_holds:
  "q \<in> set queries \<Longrightarrow> q \<noteq> [] \<Longrightarrow> (k, vs) \<in> set (qs_parser q) \<Longrightarrow>
   \<exists>ws. (k, ws) \<in> set (query_analysis qs_parser queries) \<and> set vs \<subseteq> set ws"
  unfolding query_analysis_def by (rule query_loop_add)

lemma collect_results_map:
  "collect_results rs = Inr xs \<Longrightarrow> rs = map Inr xs"
proof (induction rs arbitrary: xs)
  case Nil
  then show ?case by simp
next
  case (Cons r rs)
  then show ?case by (cases r) (auto split: sum.splits)
qed

text \<open>
  What an endpoint is built from: the parsed URLs of all entries of its group, and the
  outcome of the body analysis.
\<close>

lemma build_endpoint_parts:
  assumes "build_endpoint loads qs_parser ((m, base_path), requests) = Inr e"
  shows "\<exists>parts samples bp.
     map (\<lambda>req. normalize_url (req_url req)) requests = map Inr parts
     \<and> body_analysis loads ([], []) requests = Inr (samples, bp)
     \<and> em_templated_path e = detect_template_path base_path (map fst parts)
     \<and> path_params e = path_analysis base_path (map fst parts)
     \<and> query_params e = query_analysis qs_parser (map snd parts)
     \<and> em_sample_bodies e = take 5 samples
     \<and> body_params e = map (\<lambda>(k, v). (k, take 10 v)) bp"
proof -
  from assms obtain parts where
    p: "collect_results (map (\<lambda>req. normalize_url (req_url req)) requests) = Inr parts"
    by (cases "collect_results (map (\<lambda>req. normalize_url (req_url req)) requests)")
      (simp_all add: build_endpoint_def)
  from assms p obtain r where a0: "body_analysis loads ([], []) requests = Inr r"
    by (cases "body_analysis loads ([], []) requests") (simp_all add: build_endpoint_def Let_def)
  obtain samples bp where r: "r = (samples, bp)" by (cases r)
  from assms have "em_templated_path e = detect_template_path base_path (map fst parts)
     \<and> path_params e = path_analysis base_path (map fst parts)
     \<and> query_params e = query_analysis qs_parser (map snd parts)
     \<and> em_sample_bodies e = take 5 samples
     \<and> body_params e = map (\<lambda>(k, v). (k, take 10 v)) bp"
    by (auto simp: build_endpoint_def p a0 r Let_def)
  with collect_results_map [OF p] a0 r show ?thesis by blast
qed

text \<open>
  C1 (evaluation at the failing input). The log holds \<open>GET /api/users/42\<close> and
  \<open>GET /api/users/43\<close>, both with responses. The requests are grouped by their
  concrete paths, so each path is a group of its own and yields its own endpoint; both
  endpoints get the template \<open>/api/users/{id:int}\<close>, and the pairs of method and
  template are not pairwise distinct.
\<close>

theorem C1_two_endpoints_one_template:
  "map_sum id (map (\<lambda>e. (em_method e, em_templated_path e)))
     (parse_requests json_loads parse_qs
        [captured ''GET'' ''https://example.test/api/users/42'' [] [],
         captured ''GET'' ''https://example.test/api/users/43'' [] []])
   = Inr [(''GET'', ''/api/users/{id:int}''), (''GET'', ''/api/users/{id:int}'')]"
  by code_simp

text \<open>
  C6 (counterexample). An entry with an empty request body and the response body
  \<open>{"a": 1}\<close>: the response body is parsed in place of the request body, and the
  endpoint gets the sample body \<open>{"a": 1}\<close> and the body parameter \<open>a\<close>.
\<close>

theorem C6_empty_request_body_contributes:
  "post_data (captured ''GET'' ''https://example.test/api/users'' [] json_a1) = []
   \<and> map_sum id (map (\<lambda>e. (em_sample_bodies e, body_params e)))
       (parse_requests json_loads parse_qs
          [captured ''GET'' ''https://example.test/api/users'' [] json_a1])
     = Inr [([[(''a'', JInt 1)]], [(''a'', [''1''])])]"
  by code_simp

text \<open>
  C6 (amended). The text the body analysis parses for an entry is its request body or,
  when the request body is empty, its response body. An entry for which that text is
  empty, is the marker of an unreadable body, fails JSON parsing or parses to a false
  value contributes nothing to \<open>parameters.body\<close> or \<open>sample_bodies\<close>: the body analysis
  of a group with it equals that of the group without it. An entry whose non-empty
  request body fails JSON parsing is such an entry. The \<open>sample_bodies\<close> of an endpoint
  are the first five objects parsed from the texts of the contributing entries of its
  group, and every name of \<open>parameters.body\<close> is a key of an object parsed from the text
  of a contributing entry, one of the first five or a later one. Every entry of the
  group, contributing or not, takes part in the path and query analysis: the template,
  \<open>parameters.path\<close> and \<open>parameters.query\<close> are computed from the parsed URLs of all
  entries of the group, and every field of the query of an entry is in
  \<open>parameters.query\<close> with its values.
\<close>

theorem C6_body_sources:
  "(\<not> contributes loads req \<longrightarrow>
      body_analysis loads acc (xs @ req # ys) = body_analysis loads acc (xs @ ys))
   \<and> (post_data req \<noteq> [] \<and> loads (post_data req) = None \<longrightarrow> \<not> contributes loads req)
   \<and> (build_endpoint loads qs_parser ((m, base_path), requests) = Inr e \<longrightarrow>
        em_sample_bodies e = take 5 (concat (map (body_contribution loads) requests))
        \<and> fst ` set (body_params e)
            \<subseteq> (\<Union>d \<in> set (concat (map (body_contribution loads) requests)). fst ` set d)
        \<and> (\<exists>parts.
              map (\<lambda>r. normalize_url (req_url r)) requests = map Inr parts
              \<and> em_templated_path e = detect_template_path base_path (map fst parts)
              \<and> path_params e = path_analysis base_path (map fst parts)
              \<and> query_params e = query_analysis qs_parser (map snd parts)))
   \<and> (build_endpoint loads qs_parser ((m, base_path), requests) = Inr e
        \<and> r \<in> set requests \<and> normalize_url (req_url r) = Inr (p, q) \<and> q \<noteq> []
        \<and> (name, vals) \<in> set (qs_parser q)
        \<longrightarrow> (\<exists>ws. (name, ws) \<in> set (query_params e) \<and> set vals \<subseteq> set ws))"
proof (intro conjI)
  show "\<not> contributes loads req \<longrightarrow>
      body_analysis loads acc (xs @ req # ys) = body_analysis loads acc (xs @ ys)"
    using body_analysis_drop_silent by blast
  show "post_data req \<noteq> [] \<and> loads (post_data req) = None \<longrightarrow> \<not> contributes loads req"
    by (simp add: contributes_def body_str_def extract_json_body_def)
  show "build_endpoint loads qs_parser ((m, base_path), requests) = Inr e \<longrightarrow>
        em_sample_bodies e = take 5 (concat (map (body_contribution loads) requests))
        \<and> fst ` set (body_params e)
            \<subseteq> (\<Union>d \<in> set (concat (map (body_contribution loads) requests)). fst ` set d)
        \<and> (\<exists>parts.
              map (\<lambda>r. normalize_url (req_url r)) requests = map Inr parts
              \<and> em_templated_path e = detect_template_path base_path (map fst parts)
              \<and> path_params e = path_analysis base_path (map fst parts)
              \<and> query_params e = query_analysis qs_parser (map snd parts))"
  proof
    assume b: "build_endpoint loads qs_parser ((m, base_path), requests) = Inr e"
    from build_endpoint_parts [OF b] obtain parts samples bp where
      u: "map (\<lambda>req. normalize_url (req_url req)) requests = map Inr parts"
      and a: "body_analysis loads ([], []) requests = Inr (samples, bp)"
      and t: "em_templated_path e = detect_template_path base_path (map fst parts)"
        "path_params e = path_analysis base_path (map fst parts)"
        "query_params e = query_analysis qs_parser (map snd parts)"
      and e: "em_sample_bodies e = take 5 samples"
        "body_params e = map (\<lambda>(k, v). (k, take 10 v)) bp"
      by blast
    from body_analysis_samples [OF a] e(1)
    have 1: "em_sample_bodies e = take 5 (concat (map (body_contribution loads) requests))"
      by simp
    have "map fst (body_params e) = map fst bp" by (simp add: e(2) case_prod_beta)
    then have "set (map fst (body_params e)) = set (map fst bp)" by simp
    then have "fst ` set (body_params e) = fst ` set bp" by (simp only: set_map)
    moreover have "fst ` set bp
        \<subseteq> (\<Union>d \<in> set (concat (map (body_contribution loads) requests)). fst ` set d)"
      using body_analysis_keys [OF a] by simp
    ultimately have 2: "fst ` set (body_params e)
        \<subseteq> (\<Union>d \<in> set (concat (map (body_contribution loads) requests)). fst ` set d)"
      by (simp only:)
    from u t have 3: "\<exists>parts.
              map (\<lambda>r. normalize_url (req_url r)) requests = map Inr parts
              \<and> em_templated_path e = detect_template_path base_path (map fst parts)
              \<and> path_params e = path_analysis base_path (map fst parts)
              \<and> query_params e = query_analysis qs_parser (map snd parts)"
      by blast
    from 1 2 3 show "em_sample_bodies e = take 5 (concat (map (body_contribution loads) requests))
        \<and> fst ` set (body_params e)
            \<subseteq> (\<Union>d \<in> set (concat (map (body_contribution loads) requests)). fst ` set d)
        \<and> (\<exists>parts.
              map (\<lambda>r. normalize_url (req_url r)) requests = map Inr parts
              \<and> em_templated_path e = detect_template_path base_path (map fst parts)
              \<and> path_params e = path_analysis base_path (map fst parts)
              \<and> query_params e = query_analysis qs_parser (map snd parts))"
      by (intro conjI)
  qed
  show "build_endpoint loads qs_parser ((m, base_path), requests) = Inr e
        \<and> r \<in> set requests \<and> normalize_url (req_url r) = Inr (p, q) \<and> q \<noteq> []
        \<and> (name, vals) \<in> set (qs_parser q)
        \<longrightarrow> (\<exists>ws. (name, ws) \<in> set (query_params e) \<and> set vals \<subseteq> set ws)"
  proof
    assume h: "build_endpoint loads qs_parser ((m, base_path), requests) = Inr e
        \<and> r \<in> set requests \<and> normalize_url (req_url r) = Inr (p, q) \<and> q \<noteq> []
        \<and> (name, vals) \<in> set (qs_parser q)"
    from h build_endpoint_parts [of loads qs_parser m base_path requests e] obtain parts where
      u: "map (\<lambda>req. normalize_url (req_url req)) requests = map Inr parts"
      and t: "query_params e = query_analysis qs_parser (map snd parts)"
      by blast
    from h have "Inr (p, q) \<in> set (map (\<lambda>req. normalize_url (req_url req)) requests)"
      by force
    with u have "(p, q) \<in> set parts" by auto
    then have "q \<in> set (map snd parts)" by force
    from query_analysis_holds [OF this] h t
    show "\<exists>ws. (name, ws) \<in> set (query_params e) \<and> set vals \<subseteq> set ws" by simp
  qed
qed

lemma build_endpoint_sample:
  "build_endpoint json_loads parse_qs
     ((''POST'', ''/api/users''), [captured ''POST'' ''https://example.test/api/users'' json_a1 []])
   = Inr \<lparr>em_method = ''POST'', em_templated_path = ''/api/users'', path_params = [],
          query_params = [], body_params = [(''a'', [''1''])],
          em_sample_bodies = [[(''a'', JInt 1)]], observed_ids = []\<rparr>"
  by code_simp

lemma build_endpoint_unparsed_body:
  "build_endpoint json_loads parse_qs
     ((''POST'', ''/api/users''),
      [captured ''POST'' ''https://example.test/api/users?page=2'' ''not json'' json_a1])
   = Inr \<lparr>em_method = ''POST'', em_templated_path = ''/api/users'', path_params = [],
          query_params = [(''page'', [''2''])], body_params = [],
          em_sample_bodies = [], observed_ids = []\<rparr>"
  by code_simp

lemma unparsed_body_url:
  "normalize_url ''https://example.test/api/users?page=2'' = Inr (''/api/users'', ''page=2'')"
  by code_simp

lemma parse_qs_page: "parse_qs ''page=2'' = [(''page'', [''2''])]"
  by code_simp

lemma not_json_fails: "json_loads ''not json'' = None"
  by code_simp

lemma body_contribution_sample:
  "body_contribution json_loads (captured ''POST'' ''https://example.test/api/users'' json_a1 [])
   = [[(''a'', JInt 1)]]"
  by code_simp

theorem C6_body_sources_witness:
  "body_analysis json_loads ([], [])
     [captured ''POST'' ''https://example.test/api/users?page=2'' ''not json'' json_a1]
     = Inr ([], [])
   \<and> \<not> contributes json_loads
         (captured ''POST'' ''https://example.test/api/users?page=2'' ''not json'' json_a1)
   \<and> em_sample_bodies
        \<lparr>em_method = ''POST'', em_templated_path = ''/api/users'', path_params = [],
         query_params = [], body_params = [(''a'', [''1''])],
         em_sample_bodies = [[(''a'', JInt 1)]], observed_ids = []\<rparr>
       = take 5 [[(''a'', JInt 1)]]
   \<and> fst ` set [(''a'', [''1''])] \<subseteq> fst ` set [(''a'', JInt 1)]
   \<and> (\<exists>parts.
         map (\<lambda>r. normalize_url (req_url r))
           [captured ''POST'' ''https://example.test/api/users?page=2'' ''not json'' json_a1]
           = map Inr parts
         \<and> ''/api/users'' = detect_template_path ''/api/users'' (map fst parts)
         \<and> [] = path_analysis ''/api/users'' (map fst parts)
         \<and> [(''page'', [''2''])] = query_analysis parse_qs (map snd parts))
   \<and> (\<exists>ws. (''page'', ws) \<in> set [(''page'', [''2''])] \<and> set [''2''] \<subseteq> set ws)"
proof -
  let ?bad = "captured ''POST'' ''https://example.test/api/users?page=2'' ''not json'' json_a1"
  let ?good = "captured ''POST'' ''https://example.test/api/users'' json_a1 []"
  let ?e = "\<lparr>em_method = ''POST'', em_templated_path = ''/api/users'', path_params = [],
         query_params = [], body_params = [(''a'', [''1''])],
         em_sample_bodies = [[(''a'', JInt 1)]], observed_ids = []\<rparr>"
  let ?eb = "\<lparr>em_method = ''POST'', em_templated_path = ''/api/users'', path_params = [],
          query_params = [(''page'', [''2''])], body_params = [],
          em_sample_bodies = [], observed_ids = []\<rparr>"
  note good = C6_body_sources [where loads = json_loads and req = ?bad and acc = "([], [])"
      and xs = "[]" and ys = "[]" and qs_parser = parse_qs and m = "''POST''"
      and base_path = "''/api/users''" and requests = "[?good]" and e = ?e]
  note bad = C6_body_sources [where loads = json_loads and qs_parser = parse_qs
      and m = "''POST''" and base_path = "''/api/users''" and requests = "[?bad]" and e = ?eb
      and r = ?bad and p = "''/api/users''" and q = "''page=2''" and name = "''page''"
      and vals = "[''2'']"]
  have pd: "post_data ?bad \<noteq> [] \<and> json_loads (post_data ?bad) = None"
    by (simp add: captured_def not_json_fails)
  with good have nc: "\<not> contributes json_loads ?bad" by blast
  with good have 1: "body_analysis json_loads ([], []) [?bad] = Inr ([], [])" by simp
  from good build_endpoint_sample
  have 2: "em_sample_bodies ?e = take 5 [[(''a'', JInt 1)]]
      \<and> fst ` set (body_params ?e) \<subseteq> fst ` set [(''a'', JInt 1)]"
    by (simp add: body_contribution_sample)
  from bad build_endpoint_unparsed_body
  have 3: "\<exists>parts.
         map (\<lambda>r. normalize_url (req_url r)) [?bad] = map Inr parts
         \<and> ''/api/users'' = detect_template_path ''/api/users'' (map fst parts)
         \<and> [] = path_analysis ''/api/users'' (map fst parts)
         \<and> [(''page'', [''2''])] = query_analysis parse_qs (map snd parts)"
    by simp
  have url: "normalize_url (req_url ?bad) = Inr (''/api/users'', ''page=2'')"
    by (simp add: captured_def unparsed_body_url)
  from bad build_endpoint_unparsed_body url
  have 4: "\<exists>ws. (''page'', ws) \<in> set [(''page'', [''2''])] \<and> set [''2''] \<subseteq> set ws"
    by (simp add: parse_qs_page)
  from 1 nc 2 3 4 show ?thesis by simp
qed

section \<open>Properties of the replay engine\<close>












lemma run_single_test_failures:
  "(client (build_request cs hs test) = TimeoutException \<longrightarrow>
      \<not> tr_success (run_single_test client cs hs now test)
      \<and> tr_error (run_single_test client cs hs now test) = Some ''Request timeout'')
   \<and> (client (build_request cs hs test) = RequestError d \<longrightarrow>
      \<not> tr_success (run_single_test client cs hs now test)
      \<and> tr_error (run_single_test client cs hs now test) = Some (''Request error: '' @ d))
   \<and> (client (build_request cs hs test) = OtherException d \<longrightarrow>
      \<not> tr_success (run_single_test client cs hs now test)
      \<and> tr_error (run_single_test client cs hs now test) = Some (''Unexpected error: '' @ d))
   \<and> (client (build_request cs hs test) = Responded code reason rh txt \<longrightarrow>
      tr_success (run_single_test client cs hs now test)
      \<and> tr_error (run_single_test client cs hs now test) = None)"
  by (simp add: run_single_test_def Let_def)








section \<open>Properties of the rate limiter\<close>

text \<open>
  A task that acquires alone is granted its token no earlier than \<open>min_interval\<close> after
  the stored timestamp, whether it sleeps or not.
\<close>

lemma enter_without_sleep_spacing:
  assumes "step st (Enter task t t') = Some st1" "acquire_sleep (limiter st) t = None"
  shows "grants st1 = grants st @ [(task, t')]
         \<and> last_request_time (limiter st) + min_interval (limiter st) \<le> t'"
  using assms by (auto simp: acquire_sleep_def Let_def split: if_splits)

lemma enter_with_sleep_spacing:
  assumes "step st (Enter task t t') = Some st1" "acquire_sleep (limiter st) t = Some d"
    "step st1 (Resume task u) = Some st2"
  shows "grants st2 = grants st @ [(task, u)]
         \<and> last_request_time (limiter st) + min_interval (limiter st) \<le> u"
proof -
  from assms(1,2) have st1: "st1 = st\<lparr>clock_now := t, sleeping := sleeping st @ [(task, t + d)]\<rparr>"
    and free: "map_of (sleeping st) task = None"
    by (auto split: if_splits)
  from assms(2) have d: "t + d = last_request_time (limiter st) + min_interval (limiter st)"
    by (auto simp: acquire_sleep_def Let_def split: if_splits)
  from free have "map_of (sleeping st1) task = Some (t + d)"
    by (simp add: st1 map_add_Some_iff)
  with assms(3) have "t + d \<le> u" "grants st2 = grants st1 @ [(task, u)]"
    by (auto split: if_splits)
  with d show ?thesis by (simp add: st1)
qed

text \<open>
  C10 (evaluation at the failing input). Rate 2 per second, so \<open>min_interval\<close> is 1/2.
  Task 0 enters at clock reading 100 and is granted at once. Tasks 1 and 2 enter at
  100 + 1/8 and 100 + 1/4, both read the timestamp 100 and go to sleep until 100 + 1/2.
  Task 1 comes back at 100 + 1/2 and task 2 at 100 + 5/8: their tokens are granted 1/8
  of a second apart. Nothing keeps a task from reading the timestamp while another task
  sleeps on the value it read.
\<close>

theorem C10_concurrent_grants_too_close:
  "map_option grants
     (run_limiter 2
        [Enter 0 100 100, Enter 1 (801 / 8) (801 / 8), Enter 2 (401 / 4) (401 / 4),
         Resume 1 (201 / 2), Resume 2 (805 / 8)])
   = Some [(0, 100), (1, 201 / 2), (2, 805 / 8)]
   \<and> map_option (\<lambda>st. min_interval (limiter st)) (run_limiter 2 []) = Some (1 / 2)
   \<and> (805 / 8 :: rat) - 201 / 2 < 1 / 2"
  by (simp add: run_limiter_def RateLimiter_def acquire_sleep_def acquire_finish_def)

end
